(* ===== verification/Prelude.thy ===== *)
theory Prelude
  imports Main "HOL-Library.Word"
begin

text \<open>
  Shared vocabulary of the development.

  \<^item> The outcome of a Rust call: a value, an error, a panic, or a loop that never ends
    (\<open>Ok\<close>, \<open>Err\<close>, \<open>Panic\<close>, \<open>Diverge\<close>), with the combinators the code uses on
    \<open>Result\<close> and \<open>Option\<close>.
  \<^item> Rust's \<open>BTreeMap\<close> as an association list kept sorted by key, so that iteration
    order, \<open>len\<close> and \<open>is_empty\<close> are those of the code.
  \<^item> Checked and saturating arithmetic of unsigned machine integers. Plain \<open>+\<close>,
    \<open>-\<close> and \<open>*\<close> of the code are the wrapping operations of \<^typ>\<open>'a word\<close>: the
    node and the runtime are built with \<open>cargo build --release\<close> and the workspace does
    not turn overflow checks on.
  \<^item> Bit facts about words that the crit-bit tree rests on.
\<close>

unbundle bit_operations_syntax

subsection \<open>Outcomes of calls\<close>

datatype ('e, 'a) result = Ok 'a | Err 'e | Panic | Diverge

fun and_then :: "('e, 'a) result \<Rightarrow> ('a \<Rightarrow> ('e, 'b) result) \<Rightarrow> ('e, 'b) result" where
  "and_then (Ok a) f = f a"
| "and_then (Err e) f = Err e"
| "and_then Panic f = Panic"
| "and_then Diverge f = Diverge"

fun map_err :: "('e \<Rightarrow> 'f) \<Rightarrow> ('e, 'a) result \<Rightarrow> ('f, 'a) result" where
  "map_err g (Ok a) = Ok a"
| "map_err g (Err e) = Err (g e)"
| "map_err g Panic = Panic"
| "map_err g Diverge = Diverge"

fun ok_or :: "'a option \<Rightarrow> 'e \<Rightarrow> ('e, 'a) result" where
  "ok_or (Some a) e = Ok a"
| "ok_or None e = Err e"

definition ensure :: "bool \<Rightarrow> 'e \<Rightarrow> ('e, unit) result" where
  "ensure b e = (if b then Ok () else Err e)"

text \<open>The outcome of a \<open>while\<close> loop: \<^const>\<open>None\<close> is a loop that never ends.\<close>

fun loop_outcome :: "('e, 'a) result option \<Rightarrow> ('e, 'a) result" where
  "loop_outcome (Some r) = r"
| "loop_outcome None = Diverge"

named_theorems result_iffs "when a composed call returns a value"

lemma and_then_eq_Ok [result_iffs]:
  "and_then m f = Ok b \<longleftrightarrow> (\<exists>a. m = Ok a \<and> f a = Ok b)"
  by (cases m) auto

lemma map_err_eq_Ok [result_iffs]: "map_err g m = Ok a \<longleftrightarrow> m = Ok a"
  by (cases m) auto

lemma ok_or_eq_Ok [result_iffs]: "ok_or x e = Ok a \<longleftrightarrow> x = Some a"
  by (cases x) auto

lemma ensure_eq_Ok [result_iffs]: "ensure b e = Ok u \<longleftrightarrow> b"
  by (simp add: ensure_def)

lemma loop_outcome_eq_Ok [result_iffs]: "loop_outcome x = Ok a \<longleftrightarrow> x = Some (Ok a)"
  by (cases x) auto

lemma ensure_simps [simp]: "ensure True e = Ok ()" "ensure False e = Err e"
  by (simp_all add: ensure_def)

lemma and_then_assoc: "and_then (and_then m f) g = and_then m (\<lambda>a. and_then (f a) g)"
  by (cases m) auto

subsection \<open>Ordered maps\<close>

type_synonym ('k, 'v) btreemap = "('k \<times> 'v) list"

abbreviation bt_get :: "('k, 'v) btreemap \<Rightarrow> 'k \<Rightarrow> 'v option" where
  "bt_get \<equiv> map_of"

fun bt_insert :: "'k::linorder \<Rightarrow> 'v \<Rightarrow> ('k, 'v) btreemap \<Rightarrow> ('k, 'v) btreemap" where
  "bt_insert k v [] = [(k, v)]"
| "bt_insert k v (e # m) =
     (if k < fst e then (k, v) # e # m
      else if k = fst e then (k, v) # m
      else e # bt_insert k v m)"

definition bt_remove :: "'k \<Rightarrow> ('k, 'v) btreemap \<Rightarrow> ('k, 'v) btreemap" where
  "bt_remove k m = filter (\<lambda>e. fst e \<noteq> k) m"

definition bt_ok :: "('k::linorder, 'v) btreemap \<Rightarrow> bool" where
  "bt_ok m \<longleftrightarrow> sorted_wrt (<) (map fst m)"

lemma bt_ok_simps [simp]:
  "bt_ok []"
  "bt_ok (e # m) \<longleftrightarrow> (\<forall>x \<in> set m. fst e < fst x) \<and> bt_ok m"
  by (auto simp: bt_ok_def)

lemma bt_ok_distinct: "bt_ok m \<Longrightarrow> distinct (map fst m)"
  by (simp add: bt_ok_def strict_sorted_iff)

lemma bt_get_insert [simp]: "bt_get (bt_insert k v m) = (bt_get m)(k \<mapsto> v)"
  by (induction m) auto

lemma bt_get_remove [simp]: "bt_get (bt_remove k m) = (bt_get m)(k := None)"
  by (induction m) (auto simp: bt_remove_def)

lemma set_bt_insert: "fst ` set (bt_insert k v m) = insert k (fst ` set m)"
  by (induction m) auto

lemma bt_insert_mem: "x \<in> set (bt_insert k v m) \<Longrightarrow> x = (k, v) \<or> x \<in> set m"
  by (induction m) (auto split: if_splits)

lemma bt_ok_insert [simp]: "bt_ok m \<Longrightarrow> bt_ok (bt_insert k v m)"
  by (induction m) (auto dest!: bt_insert_mem)

lemma bt_ok_remove [simp]: "bt_ok m \<Longrightarrow> bt_ok (bt_remove k m)"
  by (induction m) (auto simp: bt_remove_def)

lemma bt_get_eq_Some: "bt_ok m \<Longrightarrow> bt_get m k = Some v \<longleftrightarrow> (k, v) \<in> set m"
  by (simp add: bt_ok_distinct)

lemma bt_insert_eq_Nil [simp]: "bt_insert k v m \<noteq> []"
  by (cases m) auto

lemma bt_get_lt_None:
  "\<forall>x \<in> set m. a < fst x \<Longrightarrow> k \<le> a \<Longrightarrow> bt_get m k = None" for a :: "'k::linorder"
  by (cases "bt_get m k") (fastforce dest: map_of_SomeD leD)+

lemma bt_insert_update:
  "bt_ok m \<Longrightarrow> bt_get m k = Some w \<Longrightarrow>
    bt_insert k v m = map (\<lambda>e. if fst e = k then (k, v) else e) m"
  by (induction m) (auto simp: bt_get_lt_None intro!: map_idI[symmetric] dest: map_of_SomeD)

lemma length_bt_insert:
  "bt_ok m \<Longrightarrow> length (bt_insert k v m) = (if bt_get m k = None then Suc (length m) else length m)"
  by (induction m) (auto simp: bt_get_lt_None)

lemma length_bt_remove:
  "bt_ok m \<Longrightarrow> length (bt_remove k m) = (if bt_get m k = None then length m else length m - 1)"
proof (induction m)
  case (Cons e m)
  then have "fst e = k \<Longrightarrow> bt_remove k m = m"
    by (auto simp: bt_remove_def filter_id_conv)
  moreover have "bt_get m k \<noteq> None \<Longrightarrow> length m \<noteq> 0"
    by auto
  ultimately show ?case
    using Cons by (auto simp: bt_remove_def)
qed (simp add: bt_remove_def)

lemma bt_ok_ext:
  assumes "bt_ok m" "bt_ok n" "bt_get m = bt_get n"
  shows "m = n"
proof -
  have "set m = set n"
    using assms by (auto simp: set_eq_iff simp flip: bt_get_eq_Some)
  then show ?thesis
    using assms(1,2)
  proof (induction m arbitrary: n)
    case (Cons e m)
    then obtain f n' where n: "n = f # n'"
      by (cases n) auto
    have "e = f"
      using Cons.prems n by (metis bt_ok_simps(2) list.set_intros(1) not_less_iff_gr_or_eq set_ConsD)
    moreover have "e \<notin> set m" "f \<notin> set n'"
      using Cons.prems n by auto
    ultimately have "set m = set n'"
      using Cons.prems n by (metis insert_ident list.simps(15))
    with Cons n \<open>e = f\<close> show ?case
      by auto
  qed simp
qed

subsection \<open>Checked and saturating arithmetic\<close>

definition checked_add :: "'a::len word \<Rightarrow> 'a word \<Rightarrow> 'a word option" where
  "checked_add a b = (if unat a + unat b < 2 ^ LENGTH('a) then Some (a + b) else None)"

definition checked_sub :: "'a::len word \<Rightarrow> 'a word \<Rightarrow> 'a word option" where
  "checked_sub a b = (if b \<le> a then Some (a - b) else None)"

definition checked_mul :: "'a::len word \<Rightarrow> 'a word \<Rightarrow> 'a word option" where
  "checked_mul a b = (if unat a * unat b < 2 ^ LENGTH('a) then Some (a * b) else None)"

definition checked_div :: "'a::len word \<Rightarrow> 'a word \<Rightarrow> 'a word option" where
  "checked_div a b = (if b = 0 then None else Some (a div b))"

definition saturating_add :: "'a::len word \<Rightarrow> 'a word \<Rightarrow> 'a word" where
  "saturating_add a b = (if unat a + unat b < 2 ^ LENGTH('a) then a + b else - 1)"

definition saturating_sub :: "'a::len word \<Rightarrow> 'a word \<Rightarrow> 'a word" where
  "saturating_sub a b = (if b \<le> a then a - b else 0)"

text \<open>Plain division and remainder panic on a zero divisor.\<close>

definition div_word :: "'a::len word \<Rightarrow> 'a word \<Rightarrow> ('e, 'a word) result" where
  "div_word a b = (if b = 0 then Panic else Ok (a div b))"

definition rem_word :: "'a::len word \<Rightarrow> 'a word \<Rightarrow> ('e, 'a word) result" where
  "rem_word a b = (if b = 0 then Panic else Ok (a mod b))"

lemma div_rem_eq_Ok [result_iffs]:
  "div_word a b = Ok c \<longleftrightarrow> b \<noteq> 0 \<and> c = a div b" "rem_word a b = Ok c \<longleftrightarrow> b \<noteq> 0 \<and> c = a mod b"
  by (auto simp: div_word_def rem_word_def)

lemma unat_lt2p: "unat x < 2 ^ LENGTH('a)" for x :: "'a::len word"
  by (rule unsigned_less)

lemma unat_add_no_wrap: "unat a + unat b < 2 ^ LENGTH('a) \<Longrightarrow> unat (a + b) = unat a + unat b"
  for a b :: "'a::len word"
  by (simp add: unat_add_lem)

lemma unat_mult_no_wrap: "unat a * unat b < 2 ^ LENGTH('a) \<Longrightarrow> unat (a * b) = unat a * unat b"
  for a b :: "'a::len word"
  by (simp add: unat_mult_lem)

lemma unat_sub_le: "b \<le> a \<Longrightarrow> unat (a - b) = unat a - unat b"
  for a b :: "'a::len word"
  by (simp add: unat_sub)

text \<open>Evaluation compares binary integers instead of natural numbers.\<close>

lemma checked_code [code]:
  fixes a b :: "'a::len word"
  shows "checked_add a b = (if uint a + uint b < 2 ^ LENGTH('a) then Some (a + b) else None)"
    and "checked_mul a b = (if uint a * uint b < 2 ^ LENGTH('a) then Some (a * b) else None)"
    and "saturating_add a b = (if uint a + uint b < 2 ^ LENGTH('a) then a + b else - 1)"
proof -
  have "unat a + unat b < 2 ^ LENGTH('a) \<longleftrightarrow> uint a + uint b < 2 ^ LENGTH('a)"
    using of_nat_less_iff [of "unat a + unat b" "2 ^ LENGTH('a)", where 'a = int] by simp
  then show "checked_add a b = (if uint a + uint b < 2 ^ LENGTH('a) then Some (a + b) else None)"
      "saturating_add a b = (if uint a + uint b < 2 ^ LENGTH('a) then a + b else - 1)"
    by (simp_all only: checked_add_def saturating_add_def)
  have "unat a * unat b < 2 ^ LENGTH('a) \<longleftrightarrow> uint a * uint b < 2 ^ LENGTH('a)"
    using of_nat_less_iff [of "unat a * unat b" "2 ^ LENGTH('a)", where 'a = int] by simp
  then show "checked_mul a b = (if uint a * uint b < 2 ^ LENGTH('a) then Some (a * b) else None)"
    by (simp only: checked_mul_def)
qed

lemma checked_add_eq_Some [result_iffs]:
  "checked_add a b = Some c \<longleftrightarrow> unat c = unat a + unat b" for a :: "'a::len word"
  by (metis checked_add_def option.distinct(1) option.inject unat_add_no_wrap unsigned_less
      word_unat_eq_iff)

lemma checked_sub_eq_Some [result_iffs]:
  "checked_sub a b = Some c \<longleftrightarrow> b \<le> a \<and> unat c = unat a - unat b" for a :: "'a::len word"
  by (auto simp: checked_sub_def unat_sub_le word_unat_eq_iff split: if_splits)

lemma checked_mul_eq_Some [result_iffs]:
  "checked_mul a b = Some c \<longleftrightarrow> unat c = unat a * unat b" for a :: "'a::len word"
  by (metis checked_mul_def option.distinct(1) option.inject unat_mult_no_wrap unsigned_less
      word_unat_eq_iff)

lemma checked_div_eq_Some [result_iffs]:
  "checked_div a b = Some c \<longleftrightarrow> b \<noteq> 0 \<and> unat c = unat a div unat b" for a :: "'a::len word"
  by (auto simp: checked_div_def unat_div word_unat_eq_iff)

lemma unat_saturating_sub: "unat (saturating_sub a b) = unat a - unat b"
  by (auto simp: saturating_sub_def unat_sub_le word_le_nat_alt)

subsection \<open>Bits of words\<close>

lemma bit_word_unat: "bit x b \<longleftrightarrow> odd (unat x div 2 ^ b)" for x :: "'a::len word"
  by (metis bit_iff_odd bit_unsigned_iff bit_imp_possible_bit possible_bit_nat)

lemma div_exp_bit: "unat x div 2 ^ b = 2 * (unat x div 2 ^ Suc b) + of_bool (bit x b)"
  for x :: "'a::len word"
proof -
  have "unat x div 2 ^ Suc b = unat x div 2 ^ b div 2"
    by (simp only: power_Suc2 div_mult2_eq)
  moreover have "n = 2 * (n div 2) + of_bool (odd n)" for n :: nat
    by simp
  ultimately show ?thesis
    by (simp only: bit_word_unat)
qed

lemma unat_exp: "n < LENGTH('a) \<Longrightarrow> unat (2 ^ n :: 'a::len word) = 2 ^ n"
  by (metis uint_2p exp_eq_zero_iff not_le word_gt_0 nat_uint_eq nat_power_eq nat_numeral
      zero_le_numeral)

lemma div_exp_eq_if_bits_eq:
  fixes x y :: "'a::len word"
  assumes "\<And>c. b \<le> c \<Longrightarrow> bit x c = bit y c"
  shows "unat x div 2 ^ b = unat y div 2 ^ b"
proof -
  have "bit (drop_bit b (unat x)) c = bit (drop_bit b (unat y)) c" for c
    using assms [of "b + c"] by (simp add: bit_drop_bit_eq bit_unsigned_iff)
  then have "drop_bit b (unat x) = drop_bit b (unat y)"
    by (simp add: bit_eq_iff)
  then show ?thesis
    by (simp add: drop_bit_eq_div)
qed

text \<open>The highest bit in which two words differ decides their order.\<close>

lemma word_less_if_bit:
  fixes x y :: "'a::len word"
  assumes "\<not> bit x b" "bit y b" "\<And>c. b < c \<Longrightarrow> bit x c = bit y c"
  shows "x < y"
proof -
  have "unat x div 2 ^ Suc b = unat y div 2 ^ Suc b"
    by (rule div_exp_eq_if_bits_eq) (simp add: assms(3))
  then have "unat x div 2 ^ b < unat y div 2 ^ b"
    using assms(1,2) by (simp add: div_exp_bit [of x b] div_exp_bit [of y b])
  then show ?thesis
    by (metis div_le_mono not_le word_less_nat_alt)
qed

lemma msb_less: "x < 2 ^ (LENGTH('a) - 1) \<longleftrightarrow> \<not> bit x (LENGTH('a) - 1)" for x :: "'a::len word"
proof -
  have "unat x div 2 ^ (LENGTH('a) - 1) < 2"
    using unsigned_less [of x]
    by (metis less_mult_imp_div_less One_nat_def Suc_pred len_gt_0 mult.commute power_Suc)
  then show ?thesis
    by (auto simp: word_less_nat_alt bit_word_unat less_2_cases_iff div_eq_0_iff unat_exp)
qed

lemma word_bit_in_range: "bit x b \<Longrightarrow> b < LENGTH('a)" for x :: "'a::len word"
  by (rule bit_imp_le_length)

end
