(* ===== verification/Indices.thy ===== *)
theory Indices
  imports Prelude
begin

text \<open>
  The index type of the crit-bit tree (\<open>pallets/hybrid-orderbook/src/types.rs\<close>, the
  trait \<open>OrderBookIndex\<close> and the macro \<open>impl_orderbook_index\<close>, which implements it for
  \<open>u32\<close>, \<open>u64\<close> and \<open>u128\<close>). The model is a word of any width. Internal nodes have
  indices below \<open>PARTITION_INDEX\<close>; the leaf with index \<open>i\<close> is addressed as
  \<open>MAX_INDEX - i\<close>, above it.
\<close>

definition MAX_INDEX :: "'k::len word" where
  "MAX_INDEX = - 1"

definition PARTITION_INDEX :: "'k::len word" where
  "PARTITION_INDEX = push_bit (LENGTH('k) - 1) 1"

definition CAPACITY :: "'k::len word" where
  "CAPACITY = MAX_INDEX - PARTITION_INDEX"

definition is_partition_index :: "'k::len word \<Rightarrow> bool" where
  "is_partition_index i \<longleftrightarrow> i = PARTITION_INDEX"

text \<open>Number of significant bits, and Rust's \<open>leading_zeros\<close> on a \<open>w\<close>-bit value.\<close>

fun bit_length :: "nat \<Rightarrow> nat" where
  "bit_length n = (if n = 0 then 0 else Suc (bit_length (n div 2)))"

declare bit_length.simps [simp del]

definition leading_zeros :: "nat \<Rightarrow> nat \<Rightarrow> nat" where
  "leading_zeros w n = w - bit_length n"

text \<open>
  \<open>new_mask\<close> widens the exclusive or to the type of twice the width before it counts
  leading zeros. For equal keys the code computes \<open>1 << (0 - 1)\<close>; in a release build the
  shift amount wraps and is reduced modulo the width, which selects the top bit. The tree never
  calls it on equal keys.
\<close>

definition new_mask :: "'k::len word \<Rightarrow> 'k word \<Rightarrow> 'k word" where
  "new_mask key closest_key =
     (let critbit = unat (key XOR closest_key);
          pos = LENGTH('k) - (leading_zeros (2 * LENGTH('k)) critbit - LENGTH('k))
      in push_bit (if pos = 0 then LENGTH('k) - 1 else pos - 1) 1)"

text \<open>The position whose bit \<^const>\<open>new_mask\<close> sets.\<close>

definition critical_bit :: "'k::len word \<Rightarrow> 'k word \<Rightarrow> nat" where
  "critical_bit x y = bit_length (unat (x XOR y)) - 1"

subsection \<open>Partition of the index space\<close>

lemma PARTITION_INDEX_eq: "PARTITION_INDEX = (2 ^ (LENGTH('k) - 1) :: 'k::len word)"
  by (simp add: PARTITION_INDEX_def push_bit_eq_mult)

lemma unat_PARTITION: "unat (PARTITION_INDEX :: 'k::len word) = 2 ^ (LENGTH('k) - 1)"
  by (simp add: PARTITION_INDEX_eq unat_exp)

lemma exp_split: "(2::nat) ^ LENGTH('k::len) = 2 * 2 ^ (LENGTH('k) - 1)"
  by (metis Suc_diff_1 len_gt_0 power_Suc)

lemma unat_MAX: "unat (MAX_INDEX :: 'k::len word) = 2 * 2 ^ (LENGTH('k) - 1) - 1"
  using exp_split [where 'k = 'k]
  by (simp add: MAX_INDEX_def unsigned_minus_1_eq_mask mask_eq_exp_minus_1)

lemma le_MAX [simp]: "i \<le> (MAX_INDEX :: 'k::len word)"
  by (simp add: MAX_INDEX_def)

lemma unat_MAX_minus: "unat (MAX_INDEX - i) = 2 * 2 ^ (LENGTH('k) - 1) - 1 - unat i"
  for i :: "'k::len word"
  by (simp add: unat_sub_le unat_MAX)

lemma unat_CAPACITY: "unat (CAPACITY :: 'k::len word) = 2 ^ (LENGTH('k) - 1) - 1"
  by (simp add: CAPACITY_def unat_MAX_minus unat_PARTITION)

lemma MAX_minus_MAX_minus [simp]: "MAX_INDEX - (MAX_INDEX - i) = i" for i :: "'k::len word"
  by simp

lemma MAX_minus_inj [simp]: "MAX_INDEX - i = MAX_INDEX - j \<longleftrightarrow> i = j" for i :: "'k::len word"
  by simp

lemma leaf_pointer: "PARTITION_INDEX < MAX_INDEX - i \<longleftrightarrow> i < CAPACITY" for i :: "'k::len word"
proof -
  have "(0::nat) < 2 ^ (LENGTH('k) - 1)" by simp
  then show ?thesis
    by (auto simp: word_less_nat_alt unat_MAX_minus unat_PARTITION unat_CAPACITY)
qed

lemma CAPACITY_less_PARTITION: "CAPACITY < (PARTITION_INDEX :: 'k::len word)"
  by (simp add: word_less_nat_alt unat_PARTITION unat_CAPACITY)

lemma unat_suc:
  fixes i c :: "'k::len word"
  assumes "i < c"
  shows "unat (i + 1) = Suc (unat i)"
proof -
  have "Suc (unat i) < 2 ^ LENGTH('k)"
    using assms unfolding word_less_nat_alt by (meson Suc_leI le_less_trans unat_lt2p)
  then show ?thesis
    by (simp add: unat_add_no_wrap)
qed

lemma less_suc: "i < c \<Longrightarrow> j < i + 1 \<longleftrightarrow> j \<le> i" for i c j :: "'k::len word"
  by (simp add: word_less_nat_alt word_le_nat_alt unat_suc [of i c] less_Suc_eq_le)

lemma CAPACITY_suc: "CAPACITY < (CAPACITY + 1 :: 'k::len word)"
  using less_suc [OF CAPACITY_less_PARTITION, of CAPACITY] by simp

subsection \<open>The mask is the highest bit in which the keys differ\<close>

lemma bit_length_bound: "n < 2 ^ bit_length n"
proof (induction n rule: bit_length.induct)
  case (1 n)
  then show ?case
    by (cases "n = 0") (auto simp: bit_length.simps [of n] dest!: 1)
qed

lemma bit_length_least: "n \<noteq> 0 \<Longrightarrow> 2 ^ (bit_length n - 1) \<le> n"
proof (induction n rule: bit_length.induct)
  case (1 n)
  show ?case
  proof (cases "n div 2 = 0")
    case True
    with 1 show ?thesis
      by (simp add: bit_length.simps [of n] bit_length.simps [of 0])
  next
    case False
    then have "bit_length (n div 2) \<noteq> 0"
      by (simp add: bit_length.simps [of "n div 2"])
    then have "(2::nat) ^ bit_length (n div 2) = 2 * 2 ^ (bit_length (n div 2) - 1)"
      by (metis Suc_diff_1 neq0_conv power_Suc)
    with 1 False show ?thesis
      by (simp add: bit_length.simps [of n])
  qed
qed

lemma bit_length_le: "n < 2 ^ w \<Longrightarrow> bit_length n \<le> w"
proof (rule ccontr)
  assume n: "n < 2 ^ w" and "\<not> bit_length n \<le> w"
  then have "(2::nat) ^ w \<le> 2 ^ (bit_length n - 1)"
    by (intro power_increasing) auto
  moreover have "n \<noteq> 0"
    using \<open>\<not> bit_length n \<le> w\<close> by (metis bit_length.simps le0)
  ultimately show False
    using n bit_length_least [of n] by (meson leD order_trans)
qed

lemma bit_length_top: "n \<noteq> 0 \<Longrightarrow> n div 2 ^ (bit_length n - 1) = 1"
proof -
  assume "n \<noteq> 0"
  then have "bit_length n \<noteq> 0"
    by (simp add: bit_length.simps [of n])
  then have "(2::nat) ^ bit_length n = 2 * 2 ^ (bit_length n - 1)"
    by (metis Suc_diff_1 neq0_conv power_Suc)
  with bit_length_bound [of n] have "n div 2 ^ (bit_length n - 1) < 2"
    by (simp add: less_mult_imp_div_less)
  moreover have "0 < n div 2 ^ (bit_length n - 1)"
    using bit_length_least [OF \<open>n \<noteq> 0\<close>] by (simp add: div_greater_zero_iff)
  ultimately show ?thesis
    by simp
qed

lemma critical_bit:
  fixes x y :: "'k::len word"
  assumes "x \<noteq> y"
  shows critical_bit_less: "critical_bit x y < LENGTH('k)"
    and new_mask_eq: "new_mask x y = 2 ^ critical_bit x y"
    and critical_bit_differs: "bit x (critical_bit x y) \<noteq> bit y (critical_bit x y)"
    and critical_bit_agree: "critical_bit x y < c \<Longrightarrow> bit x c = bit y c"
proof -
  define n where "n = unat (x XOR y)"
  have "x XOR y \<noteq> 0"
    using assms by (auto simp: bit_eq_iff bit_xor_iff)
  then have n: "n \<noteq> 0"
    unfolding n_def by (simp add: unat_eq_0)
  have le: "bit_length n \<le> LENGTH('k)"
    unfolding n_def by (rule bit_length_le) (rule unat_lt2p)
  have pos: "0 < bit_length n"
    using n by (simp add: bit_length.simps [of n])
  then show "critical_bit x y < LENGTH('k)"
    using le by (simp add: critical_bit_def flip: n_def)
  have "LENGTH('k) - (2 * LENGTH('k) - bit_length n - LENGTH('k)) = bit_length n"
    using le by simp
  then show "new_mask x y = 2 ^ critical_bit x y"
    using pos by (simp add: new_mask_def critical_bit_def leading_zeros_def Let_def
        push_bit_eq_mult flip: n_def)
  have "bit (x XOR y) (critical_bit x y)"
    using bit_length_top [OF n] by (simp add: bit_word_unat critical_bit_def flip: n_def)
  then show "bit x (critical_bit x y) \<noteq> bit y (critical_bit x y)"
    by (simp add: bit_xor_iff)
  assume "critical_bit x y < c"
  then have "bit_length n \<le> c"
    using pos by (simp add: critical_bit_def flip: n_def)
  then have "n < 2 ^ c"
    using bit_length_bound [of n] by (meson less_le_trans power_increasing one_le_numeral)
  then have "\<not> bit (x XOR y) c"
    by (simp add: bit_word_unat flip: n_def)
  then show "bit x c = bit y c"
    by (simp add: bit_xor_iff)
qed

lemma and_exp_eq_0_iff: "k AND 2 ^ b = 0 \<longleftrightarrow> \<not> bit k b" for k :: "'k::len word"
  by (metis and_exp_eq_0_iff_not_bit)

lemma exp_and_eq_0_iff: "2 ^ b AND k = 0 \<longleftrightarrow> \<not> bit k b" for k :: "'k::len word"
  by (metis and.commute and_exp_eq_0_iff)

lemma word_exp_less_iff:
  "a < LENGTH('k) \<Longrightarrow> b < LENGTH('k) \<Longrightarrow> (2 ^ a :: 'k::len word) < 2 ^ b \<longleftrightarrow> a < b"
  by (simp add: word_less_nat_alt unat_exp)

text \<open>
  The mask of a new internal node isolates the highest bit in which the two keys differ:
  it is a power of two, the keys disagree under it, and the key without that bit is the
  smaller one.
\<close>

theorem new_mask_isolates_critical_bit:
  fixes x y :: "'k::len word"
  assumes "x \<noteq> y"
  shows "\<exists>b < LENGTH('k). new_mask x y = 2 ^ b \<and> bit x b \<noteq> bit y b
      \<and> (x < y \<longleftrightarrow> \<not> bit x b)"
proof -
  let ?b = "critical_bit x y"
  have "\<not> bit x ?b \<Longrightarrow> x < y"
    using critical_bit [OF assms] by (intro word_less_if_bit [where b = ?b]) auto
  moreover have "bit x ?b \<Longrightarrow> y < x"
    using critical_bit [OF assms] by (intro word_less_if_bit [where b = ?b]) auto
  ultimately show ?thesis
    using critical_bit [OF assms] by (intro exI [of _ ?b]) (auto dest: less_asym)
qed

theorem new_mask_isolates_critical_bit_witness:
  "new_mask (5 :: 8 word) 3 = 4 \<and>
   (\<exists>b < 8. new_mask (5 :: 8 word) 3 = 2 ^ b \<and> bit (5 :: 8 word) b \<noteq> bit (3 :: 8 word) b
      \<and> ((5 :: 8 word) < 3 \<longleftrightarrow> \<not> bit (5 :: 8 word) b))"
proof
  show "new_mask (5 :: 8 word) 3 = 4"
    by code_simp
  show "\<exists>b < 8. new_mask (5 :: 8 word) 3 = 2 ^ b \<and> bit (5 :: 8 word) b \<noteq> bit (3 :: 8 word) b
      \<and> ((5 :: 8 word) < 3 \<longleftrightarrow> \<not> bit (5 :: 8 word) b)"
    using new_mask_isolates_critical_bit [of "5 :: 8 word" 3] by simp
qed

end
