(* ===== verification/Critbit.thy ===== *)
theory Critbit
  imports Indices
begin

text \<open>
  The crit-bit tree of \<open>pallets/hybrid-orderbook/src/critbit.rs\<close>: its two node maps, its
  cached extrema, its index counters and every operation of \<open>impl CritbitTree\<close>. Nodes refer
  to each other by index, exactly as in the code; the loops that follow these references are
  \<open>partial_function (option)\<close>, so that a cycle in the references is an outcome of the model
  (\<^const>\<open>Diverge\<close>) and its absence a theorem. An operation on \<open>&mut self\<close> returns the new
  tree on success; every caller in the pallet discards the tree when the call fails.
\<close>

datatype CritbitTreeError =
  ExceedCapacity | Overflow | UniqueIndex | AlreadyExist | InternalNodeShouldExist
  | LeafNodeShouldExist | NotFound | RemoveNotAllowed | ValueOps | NotInitialized

datatype NodeKind = Internal | Leaf

record 'k InternalNode =
  node_mask :: 'k
  node_parent :: 'k
  node_left :: 'k
  node_right :: 'k

record ('k, 'v) LeafNode =
  leaf_parent :: 'k
  leaf_key :: 'k
  leaf_value :: 'v

record ('k, 'v) CritbitTree =
  root :: 'k
  internal_nodes :: "('k, 'k InternalNode) btreemap"
  leaves :: "('k, ('k, 'v) LeafNode) btreemap"
  max_leaf_index :: 'k
  min_leaf_index :: 'k
  next_internal_node_index :: 'k
  next_leaf_node_index :: 'k

type_synonym ('k, 'v) critbit = "('k word, 'v) CritbitTree"

definition internal_node_new :: "'k::len word \<Rightarrow> 'k word InternalNode" where
  "internal_node_new m =
     \<lparr>node_mask = m, node_parent = PARTITION_INDEX, node_left = PARTITION_INDEX,
      node_right = PARTITION_INDEX\<rparr>"

definition leaf_node_new :: "'k::len word \<Rightarrow> 'v \<Rightarrow> ('k word, 'v) LeafNode" where
  "leaf_node_new key val = \<lparr>leaf_parent = PARTITION_INDEX, leaf_key = key, leaf_value = val\<rparr>"

definition critbit_new :: "('k::len, 'v) critbit" where
  "critbit_new =
     \<lparr>root = PARTITION_INDEX, internal_nodes = [], leaves = [],
      max_leaf_index = PARTITION_INDEX, min_leaf_index = PARTITION_INDEX,
      next_internal_node_index = 0, next_leaf_node_index = 0\<rparr>"

definition critbit_is_empty :: "('k, 'v) CritbitTree \<Rightarrow> bool" where
  "critbit_is_empty t \<longleftrightarrow> leaves t = []"

definition critbit_size :: "('k, 'v) CritbitTree \<Rightarrow> nat" where
  "critbit_size t = length (leaves t)"

definition max_leaf :: "('k, 'v) CritbitTree \<Rightarrow> (CritbitTreeError, ('k \<times> 'k) option) result" where
  "max_leaf t =
     (if leaves t = [] then Ok None
      else case bt_get (leaves t) (max_leaf_index t) of
             Some leaf \<Rightarrow> Ok (Some (leaf_key leaf, max_leaf_index t))
           | None \<Rightarrow> Err LeafNodeShouldExist)"

definition min_leaf :: "('k, 'v) CritbitTree \<Rightarrow> (CritbitTreeError, ('k \<times> 'k) option) result" where
  "min_leaf t =
     (if leaves t = [] then Ok None
      else case bt_get (leaves t) (min_leaf_index t) of
             Some leaf \<Rightarrow> Ok (Some (leaf_key leaf, min_leaf_index t))
           | None \<Rightarrow> Err LeafNodeShouldExist)"

text \<open>\<open>next_index\<close> bumps a counter; the leaf counter with \<open>+=\<close>, the other checked.\<close>

fun next_index ::
  "('k::len, 'v) critbit \<Rightarrow> NodeKind \<Rightarrow> (CritbitTreeError, 'k word \<times> ('k, 'v) critbit) result"
where
  "next_index t Leaf =
     (let i = next_leaf_node_index t; t' = t\<lparr>next_leaf_node_index := i + 1\<rparr>
      in and_then (ensure (next_leaf_node_index t' \<le> CAPACITY) ExceedCapacity) (\<lambda>_. Ok (i, t')))"
| "next_index t Internal =
     (let i = next_internal_node_index t
      in and_then (ok_or (checked_add i 1) Overflow) (\<lambda>n.
           Ok (i, t\<lparr>next_internal_node_index := n\<rparr>)))"

definition is_left_child :: "('k, 'v) CritbitTree \<Rightarrow> 'k \<Rightarrow> 'k \<Rightarrow> bool" where
  "is_left_child t parent child =
     (case bt_get (internal_nodes t) parent of
        Some internal_node \<Rightarrow> node_left internal_node = child
      | None \<Rightarrow> False)"

definition update_ref ::
  "('k::len, 'v) critbit \<Rightarrow> 'k word \<Rightarrow> 'k word \<Rightarrow> bool
    \<Rightarrow> (CritbitTreeError, ('k, 'v) critbit) result"
where
  "update_ref t parent child left_child =
     and_then (ok_or (bt_get (internal_nodes t) parent) InternalNodeShouldExist) (\<lambda>internal_node.
       let internal_node' = (if left_child then internal_node\<lparr>node_left := child\<rparr>
                             else internal_node\<lparr>node_right := child\<rparr>);
           t1 = t\<lparr>internal_nodes := bt_insert parent internal_node' (internal_nodes t)\<rparr>
       in if PARTITION_INDEX < child then
            and_then (ok_or (bt_get (leaves t1) (MAX_INDEX - child)) LeafNodeShouldExist) (\<lambda>leaf_node.
              Ok (t1\<lparr>leaves := bt_insert (MAX_INDEX - child) (leaf_node\<lparr>leaf_parent := parent\<rparr>)
                                (leaves t1)\<rparr>))
          else
            and_then (ok_or (bt_get (internal_nodes t1) child) InternalNodeShouldExist) (\<lambda>node.
              Ok (t1\<lparr>internal_nodes := bt_insert child (node\<lparr>node_parent := parent\<rparr>)
                                        (internal_nodes t1)\<rparr>)))"

partial_function (option) closest_loop ::
  "('k::len, 'v) critbit \<Rightarrow> 'k word \<Rightarrow> 'k word \<Rightarrow> (CritbitTreeError, 'k word) result option"
where
  "closest_loop t key cur =
     (if cur < PARTITION_INDEX then
        (case bt_get (internal_nodes t) cur of
           None \<Rightarrow> Some (Err InternalNodeShouldExist)
         | Some internal_node \<Rightarrow>
             if node_mask internal_node AND key = 0
             then closest_loop t key (node_left internal_node)
             else closest_loop t key (node_right internal_node))
      else Some (Ok cur))"

definition get_closest_leaf_index ::
  "('k::len, 'v) critbit \<Rightarrow> 'k word \<Rightarrow> (CritbitTreeError, 'k word option) result"
where
  "get_closest_leaf_index t key =
     (if root t = PARTITION_INDEX then Ok None
      else and_then (loop_outcome (closest_loop t key (root t))) (\<lambda>cur.
             Ok (Some (MAX_INDEX - cur))))"

definition find_leaf ::
  "('k::len, 'v) critbit \<Rightarrow> 'k word \<Rightarrow> (CritbitTreeError, 'k word option) result"
where
  "find_leaf t key =
     and_then (get_closest_leaf_index t key) (\<lambda>closest.
       case closest of
         Some leaf_index \<Rightarrow>
           and_then (ok_or (bt_get (leaves t) leaf_index) LeafNodeShouldExist) (\<lambda>leaf_node.
             if leaf_key leaf_node \<noteq> key then Ok None else Ok (Some leaf_index))
       | None \<Rightarrow> Ok None)"

definition update_min_max_leaf ::
  "('k::len, 'v) critbit \<Rightarrow> 'k word \<Rightarrow> 'k word \<Rightarrow> ('k, 'v) critbit"
where
  "update_min_max_leaf t new_leaf_index new_key =
     (let t1 = (case bt_get (leaves t) (min_leaf_index t) of
                  Some leaf \<Rightarrow> if new_key < leaf_key leaf
                               then t\<lparr>min_leaf_index := new_leaf_index\<rparr> else t
                | None \<Rightarrow> t\<lparr>min_leaf_index := new_leaf_index\<rparr>)
      in case bt_get (leaves t1) (max_leaf_index t1) of
           Some leaf \<Rightarrow> if leaf_key leaf < new_key
                        then t1\<lparr>max_leaf_index := new_leaf_index\<rparr> else t1
         | None \<Rightarrow> t1\<lparr>max_leaf_index := new_leaf_index\<rparr>)"

text \<open>
  \<open>insert\<close>: the descent that looks for the place of the new internal node, and the whole
  operation. The result of the descent is the pair of \<open>curr\<close> and
  \<open>internal_node_parent_index\<close>.
\<close>

partial_function (option) insert_loop ::
  "('k::len, 'v) critbit \<Rightarrow> 'k word \<Rightarrow> 'k word \<Rightarrow> 'k word \<Rightarrow> 'k word
    \<Rightarrow> (CritbitTreeError, 'k word \<times> 'k word) result option"
where
  "insert_loop t key m cur internal_node_parent_index =
     (if cur < PARTITION_INDEX then
        (case bt_get (internal_nodes t) cur of
           None \<Rightarrow> Some (Err InternalNodeShouldExist)
         | Some internal_node \<Rightarrow>
             if node_mask internal_node < m then Some (Ok (cur, internal_node_parent_index))
             else if node_mask internal_node AND key = 0
             then insert_loop t key m (node_left internal_node) cur
             else insert_loop t key m (node_right internal_node) cur)
      else Some (Ok (cur, internal_node_parent_index)))"

definition critbit_insert ::
  "('k::len, 'v) critbit \<Rightarrow> 'k word \<Rightarrow> 'v \<Rightarrow> (CritbitTreeError, ('k, 'v) critbit) result"
where
  "critbit_insert t key val =
     and_then (next_index t Leaf) (\<lambda>(new_leaf_index, t1).
     let t2 = t1\<lparr>leaves := bt_insert new_leaf_index (leaf_node_new key val) (leaves t1)\<rparr> in
     if bt_get (leaves t1) new_leaf_index \<noteq> None then Err UniqueIndex else
     and_then (get_closest_leaf_index t2 key) (\<lambda>closest.
     case closest of
       None \<Rightarrow> Ok (t2\<lparr>root := MAX_INDEX, max_leaf_index := new_leaf_index,
                      min_leaf_index := new_leaf_index\<rparr>)
     | Some closest_leaf_index \<Rightarrow>
         and_then (ok_or (bt_get (leaves t2) closest_leaf_index) LeafNodeShouldExist) (\<lambda>closest_leaf.
         if leaf_key closest_leaf = key then Err AlreadyExist else
         let m = new_mask key (leaf_key closest_leaf) in
         and_then (next_index t2 Internal) (\<lambda>(new_internal_index, t3).
         let t4 = t3\<lparr>internal_nodes :=
                       bt_insert new_internal_index (internal_node_new m) (internal_nodes t3)\<rparr> in
         if bt_get (internal_nodes t3) new_internal_index \<noteq> None then Err UniqueIndex else
         and_then (loop_outcome (insert_loop t4 key m (root t4) PARTITION_INDEX)) (\<lambda>(cur, par).
         and_then (if is_partition_index par then Ok (t4\<lparr>root := new_internal_index\<rparr>)
                   else update_ref t4 par new_internal_index (is_left_child t4 par cur)) (\<lambda>t5.
         let left_child = (key AND m = 0) in
         and_then (update_ref t5 new_internal_index (MAX_INDEX - new_leaf_index) left_child) (\<lambda>t6.
         and_then (update_ref t6 new_internal_index cur (\<not> left_child)) (\<lambda>t7.
         Ok (update_min_max_leaf t7 new_leaf_index key)))))))))"

text \<open>Traversals.\<close>

partial_function (option) left_most_loop ::
  "('k::len, 'v) critbit \<Rightarrow> 'k word \<Rightarrow> (CritbitTreeError, 'k word) result option"
where
  "left_most_loop t cur =
     (if cur < PARTITION_INDEX then
        (case bt_get (internal_nodes t) cur of
           None \<Rightarrow> Some (Err InternalNodeShouldExist)
         | Some internal_node \<Rightarrow> left_most_loop t (node_left internal_node))
      else Some (Ok cur))"

definition left_most_leaf ::
  "('k::len, 'v) critbit \<Rightarrow> 'k word \<Rightarrow> (CritbitTreeError, 'k word) result"
where
  "left_most_leaf t start = loop_outcome (left_most_loop t start)"

partial_function (option) right_most_loop ::
  "('k::len, 'v) critbit \<Rightarrow> 'k word \<Rightarrow> (CritbitTreeError, 'k word) result option"
where
  "right_most_loop t cur =
     (if cur < PARTITION_INDEX then
        (case bt_get (internal_nodes t) cur of
           None \<Rightarrow> Some (Err InternalNodeShouldExist)
         | Some internal_node \<Rightarrow> right_most_loop t (node_right internal_node))
      else Some (Ok cur))"

definition right_most_leaf ::
  "('k::len, 'v) critbit \<Rightarrow> 'k word \<Rightarrow> (CritbitTreeError, 'k word) result"
where
  "right_most_leaf t start =
     (if start = PARTITION_INDEX then Err NotInitialized
      else loop_outcome (right_most_loop t start))"

text \<open>
  The climb of \<open>previous_leaf\<close> (\<open>left = True\<close>) and of \<open>next_leaf\<close>
  (\<open>left = False\<close>): go up while the current node is a left (not a left) child.
\<close>

partial_function (option) climb_loop ::
  "('k::len, 'v) critbit \<Rightarrow> bool \<Rightarrow> 'k word \<Rightarrow> 'k word \<Rightarrow> (CritbitTreeError, 'k word) result option"
where
  "climb_loop t left ptr parent_node_index =
     (if parent_node_index \<noteq> PARTITION_INDEX \<and> is_left_child t parent_node_index ptr = left then
        (case bt_get (internal_nodes t) parent_node_index of
           None \<Rightarrow> Some (Err InternalNodeShouldExist)
         | Some node \<Rightarrow> climb_loop t left parent_node_index (node_parent node))
      else Some (Ok parent_node_index))"

definition previous_leaf ::
  "('k::len, 'v) critbit \<Rightarrow> 'k word \<Rightarrow> (CritbitTreeError, ('k word \<times> 'k word) option) result"
where
  "previous_leaf t key =
     and_then (and_then (find_leaf t key) (\<lambda>found. ok_or found NotFound)) (\<lambda>leaf_index.
     and_then (ok_or (bt_get (leaves t) leaf_index) LeafNodeShouldExist) (\<lambda>leaf.
     and_then (loop_outcome (climb_loop t True (MAX_INDEX - leaf_index) (leaf_parent leaf))) (\<lambda>par.
     if par = PARTITION_INDEX then Ok None else
     and_then (ok_or (bt_get (internal_nodes t) par) InternalNodeShouldExist) (\<lambda>node.
     and_then (right_most_leaf t (node_left node)) (\<lambda>p.
     and_then (ok_or (bt_get (leaves t) (MAX_INDEX - p)) LeafNodeShouldExist) (\<lambda>leaf_node.
     Ok (Some (leaf_key leaf_node, MAX_INDEX - p))))))))"

definition next_leaf ::
  "('k::len, 'v) critbit \<Rightarrow> 'k word \<Rightarrow> (CritbitTreeError, ('k word \<times> 'k word) option) result"
where
  "next_leaf t key =
     and_then (and_then (find_leaf t key) (\<lambda>found. ok_or found NotFound)) (\<lambda>leaf_index.
     and_then (ok_or (bt_get (leaves t) leaf_index) LeafNodeShouldExist) (\<lambda>leaf.
     and_then (loop_outcome (climb_loop t False (MAX_INDEX - leaf_index) (leaf_parent leaf))) (\<lambda>par.
     if par = PARTITION_INDEX then Ok None else
     and_then (ok_or (bt_get (internal_nodes t) par) InternalNodeShouldExist) (\<lambda>node.
     and_then (left_most_leaf t (node_right node)) (\<lambda>p.
     and_then (ok_or (bt_get (leaves t) (MAX_INDEX - p)) LeafNodeShouldExist) (\<lambda>leaf_node.
     Ok (Some (leaf_key leaf_node, MAX_INDEX - p))))))))"

text \<open>Removal.\<close>

definition reset :: "('k::len, 'v) critbit \<Rightarrow> ('k, 'v) critbit" where
  "reset t =
     t\<lparr>root := PARTITION_INDEX, min_leaf_index := PARTITION_INDEX,
       max_leaf_index := PARTITION_INDEX, next_internal_node_index := 0,
       next_leaf_node_index := 0\<rparr>"

text \<open>
  \<open>shrink_min\<close> and \<open>shrink_max\<close> are the two blocks that move the cached extrema off
  the leaf to remove; the flag is \<open>is_empty\<close>. \<open>unlink_leaf\<close> is the block that replaces
  the parent of the removed leaf by its sibling: \<open>promote_root\<close> when that parent was the root,
  a reference update of the grandparent otherwise.
\<close>

definition shrink_min ::
  "('k::len, 'v) critbit \<Rightarrow> 'k word \<Rightarrow> 'k word \<Rightarrow> (CritbitTreeError, bool \<times> ('k, 'v) critbit) result"
where
  "shrink_min t leaf_index key =
     (if min_leaf_index t = leaf_index then
        and_then (next_leaf t key) (\<lambda>next.
          case next of
            Some (_, next_leaf_index) \<Rightarrow> Ok (False, t\<lparr>min_leaf_index := next_leaf_index\<rparr>)
          | None \<Rightarrow> Ok (True, t))
      else Ok (False, t))"

definition shrink_max ::
  "('k::len, 'v) critbit \<Rightarrow> 'k word \<Rightarrow> 'k word \<Rightarrow> (CritbitTreeError, bool \<times> ('k, 'v) critbit) result"
where
  "shrink_max t leaf_index key =
     (if max_leaf_index t = leaf_index then
        and_then (previous_leaf t key) (\<lambda>prev.
          case prev of
            Some (_, prev_leaf_index) \<Rightarrow> Ok (False, t\<lparr>max_leaf_index := prev_leaf_index\<rparr>)
          | None \<Rightarrow> Ok (True, t))
      else Ok (False, t))"

definition promote_root ::
  "('k::len, 'v) critbit \<Rightarrow> 'k word \<Rightarrow> (CritbitTreeError, ('k, 'v) critbit) result"
where
  "promote_root t sibling =
     and_then
       (if sibling < PARTITION_INDEX then
          and_then (ok_or (bt_get (internal_nodes t) sibling) InternalNodeShouldExist) (\<lambda>node.
            Ok (t\<lparr>internal_nodes := bt_insert sibling (node\<lparr>node_parent := PARTITION_INDEX\<rparr>)
                                     (internal_nodes t)\<rparr>))
        else
          and_then (ok_or (bt_get (leaves t) (MAX_INDEX - sibling)) LeafNodeShouldExist) (\<lambda>leaf.
            Ok (t\<lparr>leaves := bt_insert (MAX_INDEX - sibling)
                              (leaf\<lparr>leaf_parent := PARTITION_INDEX\<rparr>) (leaves t)\<rparr>)))
       (\<lambda>t1. Ok (t1\<lparr>root := sibling\<rparr>))"

definition replace_parent ::
  "('k::len, 'v) critbit \<Rightarrow> 'k word \<Rightarrow> 'k word \<Rightarrow> 'k word \<Rightarrow> (CritbitTreeError, ('k, 'v) critbit) result"
where
  "replace_parent t parent_index grand_parent_index sibling =
     (if grand_parent_index = PARTITION_INDEX then promote_root t sibling
      else update_ref t grand_parent_index sibling (is_left_child t grand_parent_index parent_index))"

definition unlink_leaf ::
  "('k::len, 'v) critbit \<Rightarrow> 'k word \<Rightarrow> 'k word \<Rightarrow> (CritbitTreeError, ('k, 'v) critbit) result"
where
  "unlink_leaf t leaf_index parent_index =
     and_then (ok_or (bt_get (internal_nodes t) parent_index) InternalNodeShouldExist) (\<lambda>parent_node.
     and_then (replace_parent t parent_index (node_parent parent_node)
                (if is_left_child t parent_index (MAX_INDEX - leaf_index)
                 then node_right parent_node else node_left parent_node)) (\<lambda>t1.
     Ok (t1\<lparr>internal_nodes := bt_remove parent_index (internal_nodes t1)\<rparr>)))"

definition remove_leaf_by_index ::
  "('k::len, 'v) critbit \<Rightarrow> 'k word \<Rightarrow> (CritbitTreeError, 'v \<times> ('k, 'v) critbit) result"
where
  "remove_leaf_by_index t leaf_index =
     and_then (ok_or (bt_get (leaves t) leaf_index) NotFound) (\<lambda>leaf_node.
     and_then (shrink_min t leaf_index (leaf_key leaf_node)) (\<lambda>(empty1, t1).
     and_then (shrink_max t1 leaf_index (leaf_key leaf_node)) (\<lambda>(empty2, t2).
     let t3 = t2\<lparr>leaves := bt_remove leaf_index (leaves t2)\<rparr> in
     and_then (if empty1 \<or> empty2 then Ok (reset t3)
               else unlink_leaf t3 leaf_index (leaf_parent leaf_node)) (\<lambda>t4.
     Ok (leaf_value leaf_node, t4)))))"

lemmas loop_code [code] =
  closest_loop.simps insert_loop.simps left_most_loop.simps right_most_loop.simps climb_loop.simps

end
