(* ===== verification/CritbitInv.thy ===== *)
theory CritbitInv
  imports Critbit
begin

text \<open>
  What the node maps of a crit-bit tree stand for. An inductive tree \<open>ctree\<close> carries the
  indices, masks and keys; \<open>rep\<close> says that two maps represent it, with parent references;
  \<open>crit\<close> is the crit-bit discipline of masks and keys; contexts address a subtree, so that
  insertion and removal are both the replacement of one subtree. \<open>wf_tree\<close> is the invariant of
  the data structure and \<open>tree_map\<close> its abstraction, a finite map from keys to values.
\<close>

datatype 'k ctree = Lf 'k 'k | Nd 'k 'k "'k ctree" "'k ctree"

fun leafs :: "'k ctree \<Rightarrow> ('k \<times> 'k) list" where
  "leafs (Lf i k) = [(i, k)]"
| "leafs (Nd i m l r) = leafs l @ leafs r"

fun nodes :: "'k ctree \<Rightarrow> 'k list" where
  "nodes (Lf i k) = []"
| "nodes (Nd i m l r) = nodes l @ i # nodes r"

abbreviation leaf_ids :: "'k ctree \<Rightarrow> 'k list" where
  "leaf_ids t \<equiv> map fst (leafs t)"

abbreviation keys :: "'k ctree \<Rightarrow> 'k list" where
  "keys t \<equiv> map snd (leafs t)"

fun ptr :: "'k::len word ctree \<Rightarrow> 'k word" where
  "ptr (Lf i k) = MAX_INDEX - i"
| "ptr (Nd i m l r) = i"

definition shape :: "('k, 'v) LeafNode \<Rightarrow> 'k \<times> 'k" where
  "shape lf = (leaf_parent lf, leaf_key lf)"

fun rep ::
  "('k::len word \<Rightarrow> 'k word InternalNode option) \<Rightarrow> ('k word \<Rightarrow> ('k word, 'v) LeafNode option)
    \<Rightarrow> 'k word \<Rightarrow> 'k word ctree \<Rightarrow> bool"
where
  "rep I L p (Lf i k) \<longleftrightarrow> i < CAPACITY \<and> map_option shape (L i) = Some (p, k)"
| "rep I L p (Nd i m l r) \<longleftrightarrow>
     i < PARTITION_INDEX \<and>
     I i = Some \<lparr>node_mask = m, node_parent = p, node_left = ptr l, node_right = ptr r\<rparr> \<and>
     rep I L i l \<and> rep I L i r"

text \<open>
  The crit-bit discipline: the mask of a node is a single bit, clear in every key on the left,
  set in every key on the right, and all keys below the node agree on the higher bits.
\<close>

fun crit :: "'k::len word ctree \<Rightarrow> bool" where
  "crit (Lf i k) \<longleftrightarrow> True"
| "crit (Nd i m l r) \<longleftrightarrow>
     (\<exists>b < LENGTH('k). m = 2 ^ b \<and> (\<forall>k \<in> set (keys l). \<not> bit k b) \<and> (\<forall>k \<in> set (keys r). bit k b) \<and>
        (\<forall>k \<in> set (keys l) \<union> set (keys r). \<forall>k' \<in> set (keys l) \<union> set (keys r).
           \<forall>c > b. bit k c = bit k' c)) \<and>
     crit l \<and> crit r"

text \<open>\<open>linked\<close>: the node maps hold exactly the tree; \<open>represents\<close> adds cache and counters.\<close>

definition linked :: "('k::len, 'v) critbit \<Rightarrow> 'k word ctree \<Rightarrow> bool" where
  "linked T t \<longleftrightarrow>
     root T = ptr t \<and>
     rep (bt_get (internal_nodes T)) (bt_get (leaves T)) PARTITION_INDEX t \<and>
     distinct (nodes t) \<and> distinct (leaf_ids t) \<and>
     dom (bt_get (internal_nodes T)) = set (nodes t) \<and> dom (bt_get (leaves T)) = set (leaf_ids t) \<and>
     crit t"

definition represents :: "('k::len, 'v) critbit \<Rightarrow> 'k word ctree \<Rightarrow> bool" where
  "represents T t \<longleftrightarrow>
     linked T t \<and>
     min_leaf_index T = hd (leaf_ids t) \<and> max_leaf_index T = last (leaf_ids t) \<and>
     (\<forall>i \<in> set (nodes t). i < next_internal_node_index T) \<and>
     (\<forall>i \<in> set (leaf_ids t). i < next_leaf_node_index T) \<and>
     next_internal_node_index T < next_leaf_node_index T \<and>
     next_leaf_node_index T \<le> CAPACITY"

definition wf_tree :: "('k::len, 'v) critbit \<Rightarrow> bool" where
  "wf_tree T \<longleftrightarrow> bt_ok (internal_nodes T) \<and> bt_ok (leaves T) \<and> (T = critbit_new \<or> (\<exists>t. represents T t))"

definition entries :: "('k, 'v) CritbitTree \<Rightarrow> ('k \<times> 'v) list" where
  "entries T = map (\<lambda>(i, lf). (leaf_key lf, leaf_value lf)) (leaves T)"

definition tree_map :: "('k, 'v) CritbitTree \<Rightarrow> 'k \<Rightarrow> 'v option" where
  "tree_map T = map_of (entries T)"

text \<open>
  A context is the path from a subtree up to the root: index and mask of each node on it,
  whether the path goes through the left child, and the other child.
\<close>

type_synonym 'k ctxt = "('k \<times> 'k \<times> bool \<times> 'k ctree) list"

fun fill :: "'k ctxt \<Rightarrow> 'k ctree \<Rightarrow> 'k ctree" where
  "fill [] s = s"
| "fill ((i, m, d, t) # C) s = fill C (if d then Nd i m s t else Nd i m t s)"

fun ctxt_parent :: "'k::len word ctxt \<Rightarrow> 'k word" where
  "ctxt_parent [] = PARTITION_INDEX"
| "ctxt_parent ((i, m, d, t) # C) = i"

fun rep_ctxt ::
  "('k::len word \<Rightarrow> 'k word InternalNode option) \<Rightarrow> ('k word \<Rightarrow> ('k word, 'v) LeafNode option)
    \<Rightarrow> 'k word \<Rightarrow> 'k word ctxt \<Rightarrow> bool"
where
  "rep_ctxt I L x [] \<longleftrightarrow> True"
| "rep_ctxt I L x ((i, m, d, t) # C) \<longleftrightarrow>
     i < PARTITION_INDEX \<and>
     I i = Some \<lparr>node_mask = m, node_parent = ctxt_parent C,
                 node_left = (if d then x else ptr t), node_right = (if d then ptr t else x)\<rparr> \<and>
     rep I L i t \<and> rep_ctxt I L i C"

fun left_leafs :: "'k ctxt \<Rightarrow> ('k \<times> 'k) list" where
  "left_leafs [] = []"
| "left_leafs ((i, m, d, t) # C) = left_leafs C @ (if d then [] else leafs t)"

fun right_leafs :: "'k ctxt \<Rightarrow> ('k \<times> 'k) list" where
  "right_leafs [] = []"
| "right_leafs ((i, m, d, t) # C) = (if d then leafs t else []) @ right_leafs C"

fun left_nodes :: "'k ctxt \<Rightarrow> 'k list" where
  "left_nodes [] = []"
| "left_nodes ((i, m, d, t) # C) = left_nodes C @ (if d then [] else nodes t @ [i])"

fun right_nodes :: "'k ctxt \<Rightarrow> 'k list" where
  "right_nodes [] = []"
| "right_nodes ((i, m, d, t) # C) = (if d then i # nodes t else []) @ right_nodes C"

abbreviation ctxt_nodes :: "'k ctxt \<Rightarrow> 'k set" where
  "ctxt_nodes C \<equiv> set (left_nodes C) \<union> set (right_nodes C)"

abbreviation ctxt_leaf_ids :: "'k ctxt \<Rightarrow> 'k set" where
  "ctxt_leaf_ids C \<equiv> fst ` (set (left_leafs C) \<union> set (right_leafs C))"

subsection \<open>Trees and their representation\<close>

lemma leafs_neq_Nil [simp]: "leafs t \<noteq> []"
  by (induction t) auto

lemma length_nodes: "length (leafs t) = Suc (length (nodes t))"
  by (induction t) auto

lemma rep_cong:
  assumes "\<And>i. i \<in> set (nodes t) \<Longrightarrow> I' i = I i"
    and "\<And>i. i \<in> set (leaf_ids t) \<Longrightarrow> map_option shape (L' i) = map_option shape (L i)"
  shows "rep I' L' p t \<longleftrightarrow> rep I L p t"
  using assms by (induction t arbitrary: p) auto

lemma rep_nodes_less: "rep I L p t \<Longrightarrow> i \<in> set (nodes t) \<Longrightarrow> i < PARTITION_INDEX"
  by (induction t arbitrary: p) auto

lemma rep_leaf_ids_less: "rep I L p t \<Longrightarrow> i \<in> set (leaf_ids t) \<Longrightarrow> i < CAPACITY"
  by (induction t arbitrary: p) auto

lemma rep_leaf: "rep I L p t \<Longrightarrow> (i, k) \<in> set (leafs t) \<Longrightarrow> \<exists>lf. L i = Some lf \<and> leaf_key lf = k"
  by (induction t arbitrary: p) (auto simp: shape_def)

lemma ptr_less_iff: "rep I L p t \<Longrightarrow> ptr t < PARTITION_INDEX \<longleftrightarrow> (\<exists>i m l r. t = Nd i m l r)"
proof (cases t)
  case (Lf i k)
  moreover assume "rep I L p t"
  ultimately have "PARTITION_INDEX < ptr t"
    by (simp add: leaf_pointer)
  then show ?thesis
    using Lf by auto
qed auto

lemma ptr_neq_PARTITION: "rep I L p t \<Longrightarrow> ptr t \<noteq> PARTITION_INDEX"
  by (cases t) (auto simp: leaf_pointer [symmetric])

lemma ptr_greater_iff: "rep I L p t \<Longrightarrow> PARTITION_INDEX < ptr t \<longleftrightarrow> (\<exists>i k. t = Lf i k)"
  using ptr_less_iff [of I L p t] ptr_neq_PARTITION [of I L p t]
  by (cases t) (auto simp: leaf_pointer not_less_iff_gr_or_eq)

lemma ptr_neq:
  assumes "rep I L p s" "rep I L q t"
    and "set (nodes s) \<inter> set (nodes t) = {}" "set (leaf_ids s) \<inter> set (leaf_ids t) = {}"
  shows "ptr s \<noteq> ptr t"
  using assms ptr_less_iff [OF assms(1)] ptr_less_iff [OF assms(2)]
  by (cases s; cases t) auto

subsection \<open>Contexts\<close>

lemma leafs_fill: "leafs (fill C s) = left_leafs C @ leafs s @ right_leafs C"
  by (induction C s rule: fill.induct) auto

lemma nodes_fill: "nodes (fill C s) = left_nodes C @ nodes s @ right_nodes C"
  by (induction C s rule: fill.induct) auto

lemma rep_fill:
  "rep I L PARTITION_INDEX (fill C s) \<longleftrightarrow> rep_ctxt I L (ptr s) C \<and> rep I L (ctxt_parent C) s"
  by (induction C s rule: fill.induct) auto

lemma rep_ctxt_cong:
  assumes "\<And>i. i \<in> ctxt_nodes C \<Longrightarrow> I' i = I i"
    and "\<And>i. i \<in> ctxt_leaf_ids C \<Longrightarrow> map_option shape (L' i) = map_option shape (L i)"
  shows "rep_ctxt I' L' x C \<longleftrightarrow> rep_ctxt I L x C"
  using assms
proof (induction C arbitrary: x)
  case (Cons f C)
  obtain i m d t where f: "f = (i, m, d, t)"
    by (cases f)
  have "rep I' L' i t \<longleftrightarrow> rep I L i t"
    by (rule rep_cong; cases d) (use Cons.prems f in force)+
  moreover have "rep_ctxt I' L' i C \<longleftrightarrow> rep_ctxt I L i C"
    by (rule Cons.IH) (use Cons.prems f in auto)
  moreover have "I' i = I i"
    using Cons.prems(1) [of i] f by (auto split: if_splits)
  ultimately show ?case
    by (simp add: f)
qed simp

text \<open>The parent node of the hole is the only node that mentions what is plugged in.\<close>

lemma rep_ctxt_replace:
  assumes "rep_ctxt I L x ((i, m, d, t) # C)"
    and "I' i = map_option (\<lambda>n. if d then n\<lparr>node_left := y\<rparr> else n\<lparr>node_right := y\<rparr>) (I i)"
    and "\<And>j. j \<in> set (nodes t) \<union> ctxt_nodes C \<Longrightarrow> I' j = I j"
    and "\<And>j. j \<in> set (leaf_ids t) \<union> ctxt_leaf_ids C \<Longrightarrow> map_option shape (L' j) = map_option shape (L j)"
  shows "rep_ctxt I' L' y ((i, m, d, t) # C)"
proof -
  have "rep I' L' i t \<longleftrightarrow> rep I L i t"
    by (rule rep_cong) (use assms(3,4) in auto)
  moreover have "rep_ctxt I' L' i C \<longleftrightarrow> rep_ctxt I L i C"
    by (rule rep_ctxt_cong) (use assms(3,4) in auto)
  ultimately show ?thesis
    using assms(1,2) by auto
qed

lemma fill_leaf: "(i, k) \<in> set (leafs t) \<Longrightarrow> \<exists>C. t = fill C (Lf i k)"
proof -
  have "\<exists>C. fill D t = fill C (Lf i k)" if "(i, k) \<in> set (leafs t)" for D
    using that
  proof (induction t arbitrary: D)
    case (Nd j m l r)
    then show ?case
      using Nd.IH(1) [of "(j, m, True, r) # D"] Nd.IH(2) [of "(j, m, False, l) # D"] by auto
  qed auto
  from this [of "[]"] show "(i, k) \<in> set (leafs t) \<Longrightarrow> ?thesis"
    by simp
qed

subsection \<open>The crit-bit discipline\<close>

text \<open>In-order traversal lists the keys in increasing order.\<close>

lemma crit_sorted: "crit t \<Longrightarrow> sorted_wrt (<) (keys t)"
proof (induction t)
  case (Nd i m l r)
  from Nd.prems obtain b where
    b: "\<forall>k \<in> set (keys l). \<not> bit k b" "\<forall>k \<in> set (keys r). bit k b"
      "\<forall>k \<in> set (keys l) \<union> set (keys r). \<forall>k' \<in> set (keys l) \<union> set (keys r). \<forall>c > b. bit k c = bit k' c"
    by (auto simp del: set_map)
  have "x < y" if "x \<in> set (keys l)" "y \<in> set (keys r)" for x y
    by (rule word_less_if_bit [of x b y]) (use b that in \<open>blast+\<close>)
  then show ?case
    using Nd by (auto simp: sorted_wrt_append)
qed simp

lemma crit_fill_sub: "crit (fill C s) \<Longrightarrow> crit s"
proof (induction C s rule: fill.induct)
  case (2 i m d t C s)
  then have "crit (if d then Nd i m s t else Nd i m t s)"
    by simp
  then show ?case
    by (cases d) auto
qed simp

lemma crit_node_mono:
  assumes "crit (Nd i m l r)" "crit l'" "crit r'"
    and "set (keys l') \<subseteq> set (keys l)" "set (keys r') \<subseteq> set (keys r)"
  shows "crit (Nd i m l' r')"
proof -
  from assms(1) obtain b where b: "b < LENGTH('a)" "m = 2 ^ b"
      "\<forall>k \<in> set (keys l). \<not> bit k b" "\<forall>k \<in> set (keys r). bit k b"
      "\<forall>k \<in> set (keys l) \<union> set (keys r). \<forall>k' \<in> set (keys l) \<union> set (keys r). \<forall>c > b. bit k c = bit k' c"
    by (auto simp del: set_map)
  have "\<forall>k \<in> set (keys l'). \<not> bit k b" "\<forall>k \<in> set (keys r'). bit k b"
    using b(3,4) assms(4,5) by blast+
  moreover have "\<forall>k \<in> set (keys l') \<union> set (keys r'). \<forall>k' \<in> set (keys l') \<union> set (keys r').
      \<forall>c > b. bit k c = bit k' c"
    using b(5) assms(4,5) by blast
  ultimately show ?thesis
    unfolding crit.simps using b(1,2) assms(2,3) by blast
qed

lemma crit_fill_mono:
  "crit (fill C s) \<Longrightarrow> crit s' \<Longrightarrow> set (keys s') \<subseteq> set (keys s) \<Longrightarrow> crit (fill C s')"
proof (induction C arbitrary: s s')
  case (Cons f C)
  obtain i m d t where f: "f = (i, m, d, t)"
    by (cases f)
  let ?n = "\<lambda>s. if d then Nd i m s t else Nd i m t s"
  have fill: "crit (fill C (?n s))"
    using Cons.prems(1) by (simp add: f)
  then have n: "crit (?n s)"
    by (rule crit_fill_sub)
  have "crit (?n s')"
    using n Cons.prems(2,3) crit_node_mono [of i m s t s' t] crit_node_mono [of i m t s t s']
    by (cases d) auto
  moreover have "set (keys (?n s')) \<subseteq> set (keys (?n s))"
    using Cons.prems(3) by auto
  ultimately have "crit (fill C (?n s'))"
    using Cons.IH [OF fill] by blast
  then show ?case
    by (simp add: f)
qed simp

end
