(* ===== verification/CritbitQuery.thy ===== *)
theory CritbitQuery
  imports CritbitInv
begin

text \<open>
  The queries of the crit-bit tree on a well-formed tree: \<open>find_leaf\<close> is the lookup of the
  abstract map, \<open>min_leaf\<close> and \<open>max_leaf\<close> give its extrema, \<open>next_leaf\<close> and
  \<open>previous_leaf\<close> the successor and the predecessor of a key. All loops end.
\<close>

text \<open>The leaf at which the descent for a key ends.\<close>

fun closest :: "'k::len word \<Rightarrow> 'k word ctree \<Rightarrow> 'k word \<times> 'k word" where
  "closest key (Lf i k) = (i, k)"
| "closest key (Nd i m l r) = (if m AND key = 0 then closest key l else closest key r)"

text \<open>The first node of a context at which the path turns left (right), and its other child.\<close>

fun turn :: "bool \<Rightarrow> 'k ctxt \<Rightarrow> ('k \<times> 'k ctree) option" where
  "turn b [] = None"
| "turn b ((i, m, d, t) # C) = (if d = b then Some (i, t) else turn b C)"

text \<open>The keys of the abstract map above and below a key.\<close>

definition keys_above :: "('k::len, 'v) critbit \<Rightarrow> 'k word \<Rightarrow> 'k word set" where
  "keys_above T k = {x \<in> dom (tree_map T). k < x}"

definition keys_below :: "('k::len, 'v) critbit \<Rightarrow> 'k word \<Rightarrow> 'k word set" where
  "keys_below T k = {x \<in> dom (tree_map T). x < k}"

subsection \<open>Leaves of a represented tree\<close>

lemma linkedD:
  assumes "linked T t"
  shows linked_root: "root T = ptr t"
    and linked_rep: "rep (bt_get (internal_nodes T)) (bt_get (leaves T)) PARTITION_INDEX t"
    and linked_nodes_distinct: "distinct (nodes t)"
    and linked_ids_distinct: "distinct (leaf_ids t)"
    and linked_dom_nodes: "dom (bt_get (internal_nodes T)) = set (nodes t)"
    and linked_dom_leaves: "dom (bt_get (leaves T)) = set (leaf_ids t)"
    and linked_crit: "crit t"
  using assms by (simp_all only: linked_def)

lemma representsD:
  assumes "represents T t"
  shows represents_linked: "linked T t"
    and represents_min: "min_leaf_index T = hd (leaf_ids t)"
    and represents_max: "max_leaf_index T = last (leaf_ids t)"
    and represents_nodes_less: "\<And>i. i \<in> set (nodes t) \<Longrightarrow> i < next_internal_node_index T"
    and represents_ids_less: "\<And>i. i \<in> set (leaf_ids t) \<Longrightarrow> i < next_leaf_node_index T"
    and represents_counters: "next_internal_node_index T < next_leaf_node_index T"
    and represents_capacity: "next_leaf_node_index T \<le> CAPACITY"
  using assms unfolding represents_def by blast+

lemma linked_leaf_iff:
  assumes "linked T t"
  shows "(i, k) \<in> set (leafs t) \<longleftrightarrow> (\<exists>lf. bt_get (leaves T) i = Some lf \<and> leaf_key lf = k)"
proof
  assume "(i, k) \<in> set (leafs t)"
  then show "\<exists>lf. bt_get (leaves T) i = Some lf \<and> leaf_key lf = k"
    using rep_leaf [OF linked_rep [OF assms]] by blast
next
  assume "\<exists>lf. bt_get (leaves T) i = Some lf \<and> leaf_key lf = k"
  then obtain lf where lf: "bt_get (leaves T) i = Some lf" "leaf_key lf = k"
    by blast
  then have "i \<in> set (leaf_ids t)"
    using linked_dom_leaves [OF assms] by blast
  then obtain k' where k': "(i, k') \<in> set (leafs t)"
    by auto
  then have "k' = k"
    using rep_leaf [OF linked_rep [OF assms] k'] lf by simp
  with k' show "(i, k) \<in> set (leafs t)"
    by simp
qed

lemma linked_keys_distinct: "linked T t \<Longrightarrow> distinct (keys t)"
  using crit_sorted [of t] by (simp add: linked_crit strict_sorted_iff)

lemma linked_key_index:
  assumes "linked T t" "(i, k) \<in> set (leafs t)" "(j, k) \<in> set (leafs t)"
  shows "i = j"
proof -
  have "inj_on snd (set (leafs t))"
    using linked_keys_distinct [OF assms(1)] by (simp add: distinct_map)
  from inj_onD [OF this _ assms(2,3)] show ?thesis
    by simp
qed

lemma linked_nonempty: "linked T t \<Longrightarrow> leaves T \<noteq> []"
proof -
  assume "linked T t"
  then have "dom (bt_get (leaves T)) = set (leaf_ids t)"
    by (rule linked_dom_leaves)
  then show ?thesis
    by (cases "leaves T") auto
qed

subsection \<open>The abstract map\<close>

lemma tree_map_iff:
  assumes "linked T t" "bt_ok (leaves T)"
  shows "tree_map T k = Some v \<longleftrightarrow>
    (\<exists>i lf. bt_get (leaves T) i = Some lf \<and> leaf_key lf = k \<and> leaf_value lf = v)"
proof -
  have in_leaves: "(i, lf) \<in> set (leaves T) \<longleftrightarrow> bt_get (leaves T) i = Some lf" for i lf
    using bt_get_eq_Some [OF assms(2)] by blast
  have "inj_on (\<lambda>e. leaf_key (snd e)) (set (leaves T))"
  proof (rule inj_onI)
    fix x y
    assume xy: "x \<in> set (leaves T)" "y \<in> set (leaves T)" "leaf_key (snd x) = leaf_key (snd y)"
    then have "(fst x, leaf_key (snd x)) \<in> set (leafs t)" "(fst y, leaf_key (snd x)) \<in> set (leafs t)"
      unfolding linked_leaf_iff [OF assms(1)] by (metis in_leaves prod.collapse)+
    then have "fst x = fst y"
      by (rule linked_key_index [OF assms(1)])
    with xy show "x = y"
      by (metis in_leaves option.inject prod.collapse)
  qed
  then have "distinct (map fst (entries T))"
    using bt_ok_distinct [OF assms(2)]
    by (simp add: entries_def comp_def case_prod_beta distinct_map)
  then have "tree_map T k = Some v \<longleftrightarrow> (k, v) \<in> set (entries T)"
    by (simp add: tree_map_def)
  also have "\<dots> \<longleftrightarrow> (\<exists>i lf. (i, lf) \<in> set (leaves T) \<and> leaf_key lf = k \<and> leaf_value lf = v)"
    by (force simp: entries_def)
  finally show ?thesis
    by (simp only: in_leaves)
qed

lemma tree_map_dom:
  assumes "linked T t" "bt_ok (leaves T)"
  shows "dom (tree_map T) = set (keys t)"
proof -
  have "k \<in> dom (tree_map T) \<longleftrightarrow> (\<exists>i. (i, k) \<in> set (leafs t))" for k
    unfolding dom_def linked_leaf_iff [OF assms(1)] using tree_map_iff [OF assms, of k] by auto
  then show ?thesis
    by force
qed

lemma tree_map_new [simp]: "tree_map critbit_new = Map.empty"
  by (simp add: tree_map_def entries_def critbit_new_def)

lemma wf_cases [consumes 1, case_names empty tree]:
  assumes "wf_tree T"
  obtains "T = critbit_new"
  | t where "linked T t" "bt_ok (internal_nodes T)" "bt_ok (leaves T)" "represents T t"
  using assms by (auto simp: wf_tree_def dest: represents_linked)

lemma wf_new: "wf_tree critbit_new"
  by (simp add: wf_tree_def critbit_new_def)

subsection \<open>Lookup\<close>

lemma closest_leaf: "closest key t \<in> set (leafs t)"
  by (induction t) auto

lemma closest_key: "crit t \<Longrightarrow> key \<in> set (keys t) \<Longrightarrow> snd (closest key t) = key"
  by (induction t) (auto simp: exp_and_eq_0_iff)

lemma closest_loop_rep:
  "rep (bt_get (internal_nodes T)) L p t \<Longrightarrow>
    closest_loop T key (ptr t) = Some (Ok (MAX_INDEX - fst (closest key t)))"
proof (induction t arbitrary: p)
  case (Lf i k)
  with ptr_less_iff [OF Lf] show ?case
    by (simp add: closest_loop.simps [of T key "MAX_INDEX - i"])
next
  case (Nd i m l r)
  from Nd.prems have "rep (bt_get (internal_nodes T)) L i l" "rep (bt_get (internal_nodes T)) L i r"
    by auto
  with Nd show ?case
    by (simp add: closest_loop.simps [of T key i])
qed

lemma get_closest_leaf_index_rep:
  assumes "root T = ptr t" "rep (bt_get (internal_nodes T)) L p t"
  shows "get_closest_leaf_index T key = Ok (Some (fst (closest key t)))"
  using assms ptr_neq_PARTITION [OF assms(2)] closest_loop_rep [OF assms(2), of key]
  by (simp add: get_closest_leaf_index_def)

lemma find_leaf_rep:
  assumes "linked T t"
  shows "find_leaf T key = Ok (if key \<in> set (keys t) then Some (fst (closest key t)) else None)"
proof -
  obtain i k where c: "closest key t = (i, k)"
    by fastforce
  have "get_closest_leaf_index T key = Ok (Some i)"
    using get_closest_leaf_index_rep [OF linked_root [OF assms] linked_rep [OF assms], of key] c by simp
  moreover have "\<exists>lf. bt_get (leaves T) i = Some lf \<and> leaf_key lf = k"
    using closest_leaf [of key t] c linked_leaf_iff [OF assms] by metis
  moreover have "k \<in> set (keys t)"
    using closest_leaf [of key t] c by force
  then have "key \<in> set (keys t) \<longleftrightarrow> k = key"
    using closest_key [OF linked_crit [OF assms], of key] c by auto
  ultimately show ?thesis
    by (auto simp: find_leaf_def c)
qed

lemma find_leaf_index:
  assumes "linked T t" "(i, k) \<in> set (leafs t)"
  shows "find_leaf T k = Ok (Some i)"
proof -
  have k: "k \<in> set (keys t)"
    using assms(2) by force
  then have "snd (closest k t) = k"
    by (rule closest_key [OF linked_crit [OF assms(1)]])
  then have "(fst (closest k t), k) \<in> set (leafs t)"
    using closest_leaf [of k t] by (metis prod.collapse)
  then have "fst (closest k t) = i"
    using assms by (blast intro: linked_key_index)
  with k show ?thesis
    by (simp add: find_leaf_rep [OF assms(1)])
qed

lemma find_leaf_new [simp]: "find_leaf critbit_new key = Ok None"
  by (simp add: find_leaf_def get_closest_leaf_index_def critbit_new_def)

text \<open>
  Lookup: on a well-formed tree the descent of \<open>find_leaf\<close> ends without an error, and it
  returns the index of the leaf that holds the key, or nothing when no leaf holds it.
\<close>

lemma find_leaf_wf:
  assumes "wf_tree T"
  shows "\<exists>r. find_leaf T key = Ok r \<and>
    tree_map T key = Option.bind r (\<lambda>i. map_option leaf_value (bt_get (leaves T) i)) \<and>
    (r = None \<longleftrightarrow> key \<notin> dom (tree_map T))"
  using assms
proof (cases rule: wf_cases)
  case (tree t)
  show ?thesis
  proof (cases "key \<in> set (keys t)")
    case True
    then obtain i where i: "(i, key) \<in> set (leafs t)"
      by auto
    then obtain lf where lf: "bt_get (leaves T) i = Some lf" "leaf_key lf = key"
      using linked_leaf_iff [OF tree(1)] by blast
    then have "tree_map T key = Some (leaf_value lf)"
      using tree_map_iff [OF tree(1,3)] by blast
    then show ?thesis
      using find_leaf_index [OF tree(1) i] lf by (auto intro!: exI [of _ "Some i"])
  next
    case False
    then have "tree_map T key = None"
      using tree_map_dom [OF tree(1,3)] by blast
    with False show ?thesis
      by (simp add: find_leaf_rep [OF tree(1)] domIff)
  qed
qed simp

subsection \<open>Extrema\<close>

lemma sorted_hd_last:
  "sorted_wrt (<) xs \<Longrightarrow> x \<in> set xs \<Longrightarrow> hd xs \<le> x \<and> x \<le> last xs" for x :: "'a::linorder"
proof (induction xs)
  case (Cons y ys)
  then show ?case
    by (cases ys) (auto intro: less_imp_le less_le_trans)
qed simp

lemma extremum_leaf:
  assumes "linked T t" "(i, k) \<in> set (leafs t)"
  shows "min_leaf_index T = i \<Longrightarrow> min_leaf T = Ok (Some (k, i))"
    and "max_leaf_index T = i \<Longrightarrow> max_leaf T = Ok (Some (k, i))"
  using assms linked_leaf_iff [OF assms(1), of i k] linked_nonempty [OF assms(1)]
  by (auto simp: min_leaf_def max_leaf_def)

lemma min_leaf_rep:
  "represents T t \<Longrightarrow> min_leaf T = Ok (Some (hd (keys t), hd (leaf_ids t)))"
  using extremum_leaf(1) [of T t "hd (leaf_ids t)" "hd (keys t)"] represents_min [of T t]
  by (cases "leafs t") (auto dest: represents_linked)

lemma max_leaf_rep:
  "represents T t \<Longrightarrow> max_leaf T = Ok (Some (last (keys t), last (leaf_ids t)))"
  using extremum_leaf(2) [of T t "last (leaf_ids t)" "last (keys t)"] represents_max [of T t]
    last_in_set [of "leafs t"]
  by (simp add: last_map represents_linked)

text \<open>
  The cached extrema are right: on a well-formed tree \<open>min_leaf\<close> and \<open>max_leaf\<close> return
  nothing exactly when the tree holds no key, and otherwise the least and the greatest key with
  the indices of their leaves.
\<close>

lemma extrema_wf:
  assumes "wf_tree T"
  shows "if tree_map T = Map.empty then min_leaf T = Ok None \<and> max_leaf T = Ok None
    else \<exists>i j. min_leaf T = Ok (Some (Min (dom (tree_map T)), i))
      \<and> find_leaf T (Min (dom (tree_map T))) = Ok (Some i)
      \<and> max_leaf T = Ok (Some (Max (dom (tree_map T)), j))
      \<and> find_leaf T (Max (dom (tree_map T))) = Ok (Some j)"
  using assms
proof (cases rule: wf_cases)
  case empty
  then show ?thesis
    by (simp add: min_leaf_def max_leaf_def) (simp add: critbit_new_def)
next
  case (tree t)
  note dom = tree_map_dom [OF tree(1,3)]
  note bounds = sorted_hd_last [OF crit_sorted [OF linked_crit [OF tree(1)]]]
  have ends: "(hd (leaf_ids t), hd (keys t)) \<in> set (leafs t)"
      "(last (leaf_ids t), last (keys t)) \<in> set (leafs t)"
    using hd_in_set [of "leafs t"] last_in_set [of "leafs t"] by (simp_all add: hd_map last_map)
  have "Min (set (keys t)) = hd (keys t)"
    by (rule Min_eqI) (use bounds in \<open>auto simp del: set_map intro: hd_in_set\<close>)
  moreover have "Max (set (keys t)) = last (keys t)"
    by (rule Max_eqI) (use bounds in \<open>auto simp del: set_map intro: last_in_set\<close>)
  moreover have "tree_map T \<noteq> Map.empty"
    using dom by auto
  ultimately show ?thesis
    using min_leaf_rep [OF tree(4)] max_leaf_rep [OF tree(4)] find_leaf_index [OF tree(1) ends(1)]
      find_leaf_index [OF tree(1) ends(2)] by (simp add: dom)
qed

subsection \<open>Neighbours\<close>

lemma left_most_loop_rep:
  "rep (bt_get (internal_nodes T)) L p t \<Longrightarrow>
    left_most_loop T (ptr t) = Some (Ok (MAX_INDEX - hd (leaf_ids t)))"
proof (induction t arbitrary: p)
  case (Lf i k)
  with ptr_less_iff [OF Lf] show ?case
    by (simp add: left_most_loop.simps [of T "MAX_INDEX - i"])
next
  case (Nd i m l r)
  then have "left_most_loop T (ptr l) = Some (Ok (MAX_INDEX - hd (leaf_ids l)))"
    by auto
  with Nd.prems show ?case
    by (simp add: left_most_loop.simps [of T i] hd_append)
qed

lemma right_most_loop_rep:
  "rep (bt_get (internal_nodes T)) L p t \<Longrightarrow>
    right_most_loop T (ptr t) = Some (Ok (MAX_INDEX - last (leaf_ids t)))"
proof (induction t arbitrary: p)
  case (Lf i k)
  with ptr_less_iff [OF Lf] show ?case
    by (simp add: right_most_loop.simps [of T "MAX_INDEX - i"])
next
  case (Nd i m l r)
  then have "right_most_loop T (ptr r) = Some (Ok (MAX_INDEX - last (leaf_ids r)))"
    by auto
  with Nd.prems show ?case
    by (simp add: right_most_loop.simps [of T i] last_append)
qed

text \<open>A node tells from which side its child comes.\<close>

lemma is_left_child_rep:
  assumes "rep (bt_get (internal_nodes T)) L PARTITION_INDEX (fill ((i, m, d, t) # C) s)"
    and "distinct (nodes (fill ((i, m, d, t) # C) s))" "distinct (leaf_ids (fill ((i, m, d, t) # C) s))"
  shows "is_left_child T i (ptr s) = d"
proof -
  let ?I = "bt_get (internal_nodes T)"
  have r: "rep_ctxt ?I L (ptr s) ((i, m, d, t) # C)" "rep ?I L i s"
    using assms(1) rep_fill [of ?I L "(i, m, d, t) # C" s] by simp_all
  have "ptr t \<noteq> ptr s"
    using assms(2,3) r unfolding leafs_fill nodes_fill
    by (intro ptr_neq [of ?I L i t i s]) (cases d; auto)+
  with r(1) show ?thesis
    by (simp add: is_left_child_def)
qed

lemma climb_loop_rep:
  "rep (bt_get (internal_nodes T)) L PARTITION_INDEX (fill C s) \<Longrightarrow>
   distinct (nodes (fill C s)) \<Longrightarrow> distinct (leaf_ids (fill C s)) \<Longrightarrow>
   climb_loop T b (ptr s) (ctxt_parent C) =
     Some (Ok (case turn (\<not> b) C of None \<Rightarrow> PARTITION_INDEX | Some (i, _) \<Rightarrow> i))"
proof (induction C arbitrary: s)
  case Nil
  then show ?case
    by (simp add: climb_loop.simps [of T b "ptr s"])
next
  case (Cons f C)
  obtain i m d t where f: "f = (i, m, d, t)"
    by (cases f)
  let ?n = "if d then Nd i m s t else Nd i m t s"
  have child: "is_left_child T i (ptr s) = d"
    using is_left_child_rep Cons.prems unfolding f by blast
  have node: "i < PARTITION_INDEX" "\<exists>n. bt_get (internal_nodes T) i = Some n \<and> node_parent n = ctxt_parent C"
    using Cons.prems(1) rep_fill [of _ L "f # C" s] by (simp_all add: f)
  have up: "climb_loop T b i (ctxt_parent C) =
      Some (Ok (case turn (\<not> b) C of None \<Rightarrow> PARTITION_INDEX | Some (i, _) \<Rightarrow> i))"
    using Cons.IH [of ?n] Cons.prems by (cases d) (simp_all add: f)
  show ?case
    using node child up by (auto simp: f climb_loop.simps [of T b "ptr s"])
qed

lemma turn_right:
  "turn True C = Some (i, t) \<Longrightarrow> rep_ctxt I L x C \<Longrightarrow>
    (\<exists>n. I i = Some n \<and> node_right n = ptr t) \<and> i \<noteq> PARTITION_INDEX \<and> rep I L i t
      \<and> (\<exists>zs. right_leafs C = leafs t @ zs)"
  by (induction C arbitrary: x rule: right_leafs.induct) (auto split: if_splits)

lemma turn_left:
  "turn False C = Some (i, t) \<Longrightarrow> rep_ctxt I L x C \<Longrightarrow>
    (\<exists>n. I i = Some n \<and> node_left n = ptr t) \<and> i \<noteq> PARTITION_INDEX \<and> rep I L i t
      \<and> (\<exists>zs. left_leafs C = zs @ leafs t)"
  by (induction C arbitrary: x rule: left_leafs.induct) (auto split: if_splits)

lemma turn_None:
  "turn True C = None \<Longrightarrow> right_leafs C = []" "turn False C = None \<Longrightarrow> left_leafs C = []"
  by (induction C rule: right_leafs.induct) (auto split: if_splits)

lemma linked_ctxt:
  assumes "linked T t" "leafs t = xs @ (i, k) # ys"
  obtains C where "t = fill C (Lf i k)" "left_leafs C = xs" "right_leafs C = ys"
proof -
  obtain C where C: "t = fill C (Lf i k)"
    using fill_leaf [of i k t] assms(2) by auto
  moreover have "distinct (leafs t)"
    using linked_ids_distinct [OF assms(1)] by (simp add: distinct_map)
  ultimately have "left_leafs C = xs \<and> right_leafs C = ys"
    using assms(2) by (simp add: leafs_fill append_Cons_eq_iff)
  with C that show thesis
    by blast
qed

lemma leaf_climb:
  assumes "linked T t" "t = fill C (Lf i k)"
  obtains lf where "find_leaf T k = Ok (Some i)" "bt_get (leaves T) i = Some lf"
    and "rep_ctxt (bt_get (internal_nodes T)) (bt_get (leaves T)) (MAX_INDEX - i) C"
    and "\<And>b. climb_loop T b (MAX_INDEX - i) (leaf_parent lf) =
      Some (Ok (case turn (\<not> b) C of None \<Rightarrow> PARTITION_INDEX | Some (i, _) \<Rightarrow> i))"
proof -
  have "find_leaf T k = Ok (Some i)"
    by (rule find_leaf_index [OF assms(1)]) (simp add: assms(2) leafs_fill)
  moreover from linked_rep [OF assms(1)] obtain lf where
    "bt_get (leaves T) i = Some lf" "leaf_parent lf = ctxt_parent C"
    "rep_ctxt (bt_get (internal_nodes T)) (bt_get (leaves T)) (MAX_INDEX - i) C"
    unfolding assms(2) rep_fill by (auto simp: shape_def)
  moreover have "climb_loop T b (MAX_INDEX - i) (ctxt_parent C) =
      Some (Ok (case turn (\<not> b) C of None \<Rightarrow> PARTITION_INDEX | Some (i, _) \<Rightarrow> i))" for b
    using climb_loop_rep [of T "bt_get (leaves T)" C "Lf i k" b] linked_rep [OF assms(1)]
      linked_nodes_distinct [OF assms(1)] linked_ids_distinct [OF assms(1)]
    by (simp add: assms(2))
  ultimately show thesis
    using that by metis
qed

lemma next_leaf_rep:
  assumes "linked T t" "leafs t = xs @ (i, k) # ys"
  shows "next_leaf T k = Ok (case ys of [] \<Rightarrow> None | (j, k') # _ \<Rightarrow> Some (k', j))"
proof -
  obtain C where C: "t = fill C (Lf i k)" "right_leafs C = ys"
    using linked_ctxt [OF assms] by blast
  obtain lf where lf: "find_leaf T k = Ok (Some i)" "bt_get (leaves T) i = Some lf"
    and ctxt: "rep_ctxt (bt_get (internal_nodes T)) (bt_get (leaves T)) (MAX_INDEX - i) C"
    and climb: "\<And>b. climb_loop T b (MAX_INDEX - i) (leaf_parent lf) =
      Some (Ok (case turn (\<not> b) C of None \<Rightarrow> PARTITION_INDEX | Some (i, _) \<Rightarrow> i))"
    using leaf_climb [OF assms(1) C(1)] by blast
  show ?thesis
  proof (cases "turn True C")
    case None
    then show ?thesis
      using lf climb [of False] C(2) by (simp add: next_leaf_def turn_None(1))
  next
    case (Some a)
    then obtain q u where q: "turn True C = Some (q, u)"
      by (cases a) auto
    then obtain n zs where n: "bt_get (internal_nodes T) q = Some n" "node_right n = ptr u"
        "q \<noteq> PARTITION_INDEX" "rep (bt_get (internal_nodes T)) (bt_get (leaves T)) q u" "ys = leafs u @ zs"
      using turn_right [OF q ctxt] C(2) by auto
    obtain j k' us where j: "leafs u = (j, k') # us"
      by (cases "leafs u") auto
    then have "\<exists>lf. bt_get (leaves T) j = Some lf \<and> leaf_key lf = k'"
      using rep_leaf [OF n(4), of j k'] by simp
    then show ?thesis
      using lf climb [of False] q n j left_most_loop_rep [OF n(4)]
      by (auto simp: next_leaf_def left_most_leaf_def)
  qed
qed

lemma previous_leaf_rep:
  assumes "linked T t" "leafs t = xs @ (i, k) # ys"
  shows "previous_leaf T k =
    Ok (if xs = [] then None else Some (snd (last xs), fst (last xs)))"
proof -
  obtain C where C: "t = fill C (Lf i k)" "left_leafs C = xs"
    using linked_ctxt [OF assms] by blast
  obtain lf where lf: "find_leaf T k = Ok (Some i)" "bt_get (leaves T) i = Some lf"
    and ctxt: "rep_ctxt (bt_get (internal_nodes T)) (bt_get (leaves T)) (MAX_INDEX - i) C"
    and climb: "\<And>b. climb_loop T b (MAX_INDEX - i) (leaf_parent lf) =
      Some (Ok (case turn (\<not> b) C of None \<Rightarrow> PARTITION_INDEX | Some (i, _) \<Rightarrow> i))"
    using leaf_climb [OF assms(1) C(1)] by blast
  show ?thesis
  proof (cases "turn False C")
    case None
    then show ?thesis
      using lf climb [of True] C(2) by (simp add: previous_leaf_def turn_None(2))
  next
    case (Some a)
    then obtain q u where q: "turn False C = Some (q, u)"
      by (cases a) auto
    then obtain n zs where n: "bt_get (internal_nodes T) q = Some n" "node_left n = ptr u"
        "q \<noteq> PARTITION_INDEX" "rep (bt_get (internal_nodes T)) (bt_get (leaves T)) q u" "xs = zs @ leafs u"
      using turn_left [OF q ctxt] C(2) by auto
    obtain j k' us where j: "leafs u = us @ [(j, k')]"
      by (metis leafs_neq_Nil rev_exhaust surj_pair)
    then have "\<exists>lf. bt_get (leaves T) j = Some lf \<and> leaf_key lf = k'"
      using rep_leaf [OF n(4), of j k'] by simp
    then show ?thesis
      using lf climb [of True] q n j right_most_loop_rep [OF n(4)] ptr_neq_PARTITION [OF n(4)]
      by (auto simp: previous_leaf_def right_most_leaf_def)
  qed
qed

lemma split_keys:
  assumes "linked T t" "bt_ok (leaves T)" "leafs t = xs @ (i, k) # ys"
  shows "keys_above T k = snd ` set ys" "keys_below T k = snd ` set xs"
    and "sorted_wrt (<) (map snd xs)" "sorted_wrt (<) (map snd ys)"
proof -
  have "sorted_wrt (<) (map snd xs @ k # map snd ys)"
    using crit_sorted [OF linked_crit [OF assms(1)]] by (simp add: assms(3))
  then show "keys_above T k = snd ` set ys" "keys_below T k = snd ` set xs"
      "sorted_wrt (<) (map snd xs)" "sorted_wrt (<) (map snd ys)"
    unfolding keys_above_def keys_below_def tree_map_dom [OF assms(1,2)]
    by (auto simp: assms(3) sorted_wrt_append dest: less_asym)
qed

lemma find_leaf_absent:
  assumes "wf_tree T" "k \<notin> dom (tree_map T)"
  shows "find_leaf T k = Ok None"
  using assms(1)
proof (cases rule: wf_cases)
  case (tree t)
  then show ?thesis
    using assms(2) by (simp add: find_leaf_rep tree_map_dom)
qed simp

text \<open>
  Ordered traversal: for a key of a well-formed tree, \<open>next_leaf\<close> returns the least
  greater key and \<open>previous_leaf\<close> the greatest smaller key, each with the index of its leaf,
  and nothing when there is none; for a key that is absent both fail with \<open>NotFound\<close>.
\<close>

lemma neighbours_wf:
  assumes "wf_tree T"
  shows "next_leaf T k =
      (if k \<notin> dom (tree_map T) then Err NotFound
       else if keys_above T k = {} then Ok None
       else and_then (find_leaf T (Min (keys_above T k))) (\<lambda>i.
              Ok (Some (Min (keys_above T k), the i))))
    \<and> previous_leaf T k =
      (if k \<notin> dom (tree_map T) then Err NotFound
       else if keys_below T k = {} then Ok None
       else and_then (find_leaf T (Max (keys_below T k))) (\<lambda>i.
              Ok (Some (Max (keys_below T k), the i))))"
proof (cases "k \<in> dom (tree_map T)")
  case False
  then show ?thesis
    using find_leaf_absent [OF assms False] by (simp add: next_leaf_def previous_leaf_def)
next
  case True
  with assms obtain t where t: "linked T t" "bt_ok (leaves T)"
    by (cases rule: wf_cases) auto
  with True obtain i xs ys where split: "leafs t = xs @ (i, k) # ys"
    using tree_map_dom [OF t] by (auto dest: split_list)
  note sk = split_keys [OF t split]
  have "Min (keys_above T k) = snd (hd ys)" if "ys \<noteq> []"
    unfolding sk(1) using that sorted_hd_last [OF sk(4)] by (intro Min_eqI) (simp_all add: hd_map)
  moreover have "Max (keys_below T k) = snd (last xs)" if "xs \<noteq> []"
    unfolding sk(2) using that sorted_hd_last [OF sk(3)] by (intro Max_eqI) (simp_all add: last_map)
  moreover have "find_leaf T (snd e) = Ok (Some (fst e))" if "e \<in> set ys \<union> set xs" for e
    using that split by (auto intro!: find_leaf_index [OF t(1)])
  ultimately show ?thesis
    using True next_leaf_rep [OF t(1) split] previous_leaf_rep [OF t(1) split] sk(1,2)
    by (auto split: list.splits)
qed

end
