(* ===== verification/CritbitInsert.thy ===== *)
theory CritbitInsert
  imports CritbitQuery
begin

text \<open>
  Insertion into the crit-bit tree. The place of the new internal node is found on the inductive
  tree (\<open>split_at\<close>), the new node and leaf are joined there (\<open>join\<close>), the crit-bit
  discipline of the result follows from the choice of the mask, and the reference updates of
  the code are shown to produce exactly that tree.
\<close>

abbreviation inode :: "('k, 'v) CritbitTree \<Rightarrow> 'k \<Rightarrow> 'k InternalNode option" where
  "inode T \<equiv> bt_get (internal_nodes T)"

abbreviation lnode :: "('k, 'v) CritbitTree \<Rightarrow> 'k \<Rightarrow> ('k, 'v) LeafNode option" where
  "lnode T \<equiv> bt_get (leaves T)"

definition content :: "('k, 'v) LeafNode \<Rightarrow> 'k \<times> 'v" where
  "content lf = (leaf_key lf, leaf_value lf)"

fun split_at :: "'k::len word \<Rightarrow> 'k word \<Rightarrow> 'k word ctxt \<Rightarrow> 'k word ctree \<Rightarrow> 'k word ctxt \<times> 'k word ctree" where
  "split_at key m C (Lf i k) = (C, Lf i k)"
| "split_at key m C (Nd i m' l r) =
     (if m' < m then (C, Nd i m' l r)
      else if m' AND key = 0 then split_at key m ((i, m', True, r) # C) l
      else split_at key m ((i, m', False, l) # C) r)"

definition join ::
  "'k::len word \<Rightarrow> 'k word \<Rightarrow> 'k word \<Rightarrow> 'k word \<Rightarrow> 'k word ctree \<Rightarrow> 'k word ctree"
where
  "join m ni nl key s =
     (if key AND m = 0 then Nd ni m (Lf nl key) s else Nd ni m s (Lf nl key))"

text \<open>
  \<open>relinked T T'\<close>: the step from \<open>T\<close> to \<open>T'\<close> only moved references; it kept the
  indices in use, the keys and values of the leaves, the cached extrema and the counters.
\<close>

definition relinked :: "('k::len, 'v) critbit \<Rightarrow> ('k, 'v) critbit \<Rightarrow> bool" where
  "relinked T T' \<longleftrightarrow>
     max_leaf_index T' = max_leaf_index T \<and> min_leaf_index T' = min_leaf_index T \<and>
     next_internal_node_index T' = next_internal_node_index T \<and>
     next_leaf_node_index T' = next_leaf_node_index T \<and>
     (bt_ok (internal_nodes T) \<longrightarrow> bt_ok (internal_nodes T')) \<and>
     (bt_ok (leaves T) \<longrightarrow> bt_ok (leaves T')) \<and>
     dom (inode T') = dom (inode T) \<and>
     (\<forall>j. map_option content (lnode T' j) = map_option content (lnode T j))"

definition set_child :: "bool \<Rightarrow> 'k \<Rightarrow> 'k InternalNode \<Rightarrow> 'k InternalNode" where
  "set_child d c n = (if d then n\<lparr>node_left := c\<rparr> else n\<lparr>node_right := c\<rparr>)"

subsection \<open>The place of the new node\<close>

lemma fill_split_at: "split_at key m C t = (C', s) \<Longrightarrow> fill C' s = fill C t"
  by (induction key m C t rule: split_at.induct) (auto split: if_splits)

lemma insert_loop_rep:
  "rep (inode T) L (ctxt_parent C) t \<Longrightarrow> split_at key m C t = (C', s) \<Longrightarrow>
    insert_loop T key m (ptr t) (ctxt_parent C) = Some (Ok (ptr s, ctxt_parent C'))"
proof (induction key m C t rule: split_at.induct)
  case (1 key m C i k)
  with ptr_less_iff [OF 1(1)] show ?case
    by (auto simp: insert_loop.simps [of T key m "MAX_INDEX - i"])
next
  case (2 key m C i m' l r)
  then show ?case
    by (auto simp: insert_loop.simps [of T key m i] split: if_splits)
qed

lemma crit_join:
  fixes key :: "'k::len word"
  assumes "crit s" "d < LENGTH('k)"
    and "\<And>k. k \<in> set (keys s) \<Longrightarrow> bit k d \<noteq> bit key d"
    and "\<And>k c. k \<in> set (keys s) \<Longrightarrow> d < c \<Longrightarrow> bit k c = bit key c"
  shows "crit (join (2 ^ d) ni nl key s)"
  using assms by (auto simp: join_def and_exp_eq_0_iff intro!: exI [of _ d] simp del: set_map)

lemma keys_join: "set (keys (join m ni nl key s)) = insert key (set (keys s))"
  by (auto simp: join_def)

text \<open>
  On the path of the descent no node tests the critical bit. Above a node that tests a lower bit
  the new node may be put, since all keys below agree with the closest key down to the critical
  bit; below a node that tests a higher bit the new key belongs to the side of its own bit.
\<close>

lemma crit_path:
  fixes key c :: "'k::len word"
  assumes "crit (Nd j m l r)" "closest key (Nd j m l r) = (i, c)" "c \<noteq> key"
  obtains b where "b < LENGTH('k)" "m = 2 ^ b" "b \<noteq> critical_bit key c"
    and "\<forall>k \<in> set (keys l). \<not> bit k b" "\<forall>k \<in> set (keys r). bit k b"
    and "\<And>e k. b < e \<Longrightarrow> k \<in> set (keys (Nd j m l r)) \<Longrightarrow> bit k e = bit c e"
proof -
  obtain b where b: "b < LENGTH('k)" "m = 2 ^ b" "\<forall>k \<in> set (keys l). \<not> bit k b" "\<forall>k \<in> set (keys r). bit k b"
      "\<forall>k \<in> set (keys l) \<union> set (keys r). \<forall>k' \<in> set (keys l) \<union> set (keys r). \<forall>c > b. bit k c = bit k' c"
    using assms(1) by (auto simp del: set_map)
  have c: "c \<in> set (keys l) \<union> set (keys r)"
    using closest_leaf [of key "Nd j m l r"] assms(2) by force
  have "bit c b = bit key b"
    using closest_leaf [of key l] closest_leaf [of key r] assms(2) b(2-4)
    by (force simp: exp_and_eq_0_iff split: if_splits)
  then have "b \<noteq> critical_bit key c"
    using critical_bit_differs [of key c] assms(3) by auto
  moreover have "bit k e = bit c e" if "b < e" "k \<in> set (keys (Nd j m l r))" for e k
    using that(2) by (intro b(5) [rule_format, OF _ c that(1)]) auto
  ultimately show thesis
    using that b(1-4) by blast
qed

lemma crit_join_above:
  fixes key c :: "'k::len word"
  assumes "crit s" "c \<noteq> key"
    and "\<And>e k. critical_bit key c \<le> e \<Longrightarrow> k \<in> set (keys s) \<Longrightarrow> bit k e = bit c e"
  shows "crit (join (2 ^ critical_bit key c) ni nl key s)"
  using assms critical_bit [of key c] by (intro crit_join) simp_all

lemma crit_insert_child:
  fixes key :: "'k::len word" and l r :: "'k word ctree"
  assumes "b < LENGTH('k)" "m = 2 ^ b" "crit l" "crit r"
    and "\<forall>k \<in> set (keys l). \<not> bit k b" "\<forall>k \<in> set (keys r). bit k b"
    and "\<And>e k. b < e \<Longrightarrow> k \<in> set (keys l) \<union> set (keys r) \<Longrightarrow> bit k e = bit key e"
  shows "crit (Nd j m l r)"
  unfolding crit.simps using assms by (intro conjI exI [of _ b]) auto

lemma crit_split_join:
  fixes key c :: "'k::len word"
  assumes "crit t" "closest key t = (i, c)" "c \<noteq> key"
    and "split_at key (2 ^ critical_bit key c) C t = (C', s)"
  shows "\<exists>t'. fill C' (join (2 ^ critical_bit key c) ni nl key s) = fill C t' \<and> crit t'
    \<and> set (keys t') = insert key (set (keys t))"
  using assms(1,2,4)
proof (induction t arbitrary: C)
  case (Lf j k)
  let ?t = "join (2 ^ critical_bit key c) ni nl key (Lf j k)"
  have "crit ?t"
    using Lf by (intro crit_join_above assms(3)) auto
  with Lf.prems(3) keys_join [of _ ni nl key "Lf j k"] show ?case
    by (intro exI [of _ ?t]) (simp del: set_map)
next
  case (Nd j m l r)
  let ?d = "critical_bit key c"
  note cb = critical_bit [of key c, OF assms(3) [symmetric]]
  obtain b where b: "b < LENGTH('k)" "m = 2 ^ b" "b \<noteq> ?d" "\<forall>k \<in> set (keys l). \<not> bit k b" "\<forall>k \<in> set (keys r). bit k b"
    and same: "\<And>e k. b < e \<Longrightarrow> k \<in> set (keys (Nd j m l r)) \<Longrightarrow> bit k e = bit c e"
    by (rule crit_path [OF Nd.prems(1,2) assms(3)]) (rule that)
  have crits: "crit l" "crit r" and keys: "set (keys (Nd j m l r)) = set (keys l) \<union> set (keys r)"
    using Nd.prems(1) by simp_all
  show ?case
  proof (cases "?d < b")
    case False
    then have "C' = C" "s = Nd j m l r"
      using Nd.prems(3) b(1-3) cb(1) by (simp_all add: word_exp_less_iff)
    moreover have "crit (join (2 ^ ?d) ni nl key (Nd j m l r))"
      by (rule crit_join_above [OF Nd.prems(1) assms(3) same]) (use False b(3) in linarith)
    ultimately show ?thesis
      using keys_join by blast
  next
    case True
    then have stop: "\<not> m < 2 ^ ?d"
      using b(1,2) cb(1) by (simp add: word_exp_less_iff)
    have high: "bit k e = bit key e" if "b < e" "k \<in> insert key (set (keys (Nd j m l r)))" for e k
      using same [of e k] cb(4) [of e] that True by auto
    show ?thesis
    proof (cases "bit key b")
      case False
      then have "closest key l = (i, c)" "split_at key (2 ^ ?d) ((j, m, True, r) # C) l = (C', s)"
        using Nd.prems(2,3) stop b(2) by (simp_all add: exp_and_eq_0_iff)
      from Nd.IH(1) [OF crits(1) this] obtain t' where
        t': "fill C' (join (2 ^ ?d) ni nl key s) = fill C (Nd j m t' r)" "crit t'"
          "set (keys t') = insert key (set (keys l))"
        by auto
      have "crit (Nd j m t' r)"
        by (rule crit_insert_child [OF b(1,2) t'(2) crits(2) _ b(5), of key])
          (use b(4) high keys False in \<open>simp_all only: t'(3), blast+\<close>)
      with t' show ?thesis
        by (intro exI [of _ "Nd j m t' r"]) (simp add: Un_commute del: set_map)
    next
      case True
      then have "closest key r = (i, c)" "split_at key (2 ^ ?d) ((j, m, False, l) # C) r = (C', s)"
        using Nd.prems(2,3) stop b(2) by (simp_all add: exp_and_eq_0_iff)
      from Nd.IH(2) [OF crits(2) this] obtain t' where
        t': "fill C' (join (2 ^ ?d) ni nl key s) = fill C (Nd j m l t')" "crit t'"
          "set (keys t') = insert key (set (keys r))"
        by auto
      have "crit (Nd j m l t')"
        by (rule crit_insert_child [OF b(1,2) crits(1) t'(2) b(4), of key])
          (use b(5) high keys True in \<open>simp_all only: t'(3), blast+\<close>)
      with t' show ?thesis
        by (intro exI [of _ "Nd j m l t'"]) (simp add: Un_commute del: set_map)
    qed
  qed
qed

subsection \<open>Reference updates\<close>

lemma relinked_refl [simp]: "relinked T T"
  by (simp add: relinked_def)

lemma relinked_trans: "relinked T T' \<Longrightarrow> relinked T' T'' \<Longrightarrow> relinked T T''"
  unfolding relinked_def by simp

lemma relinked_root [simp]: "relinked T (T\<lparr>root := x\<rparr>)"
  by (simp add: relinked_def)

lemma relinked_update_ref: "update_ref T par c d = Ok T' \<Longrightarrow> relinked T T'"
  by (auto simp: update_ref_def relinked_def content_def result_iffs Let_def dom_def split: if_splits)

lemma update_ref_node:
  assumes "inode T par = Some n" "inode T c = Some cn" "c \<noteq> par" "c < PARTITION_INDEX"
  shows "\<exists>T'. update_ref T par c d = Ok T' \<and> lnode T' = lnode T \<and> root T' = root T
    \<and> inode T' = (inode T)(par \<mapsto> set_child d c n, c \<mapsto> cn\<lparr>node_parent := par\<rparr>)"
  using assms by (simp add: update_ref_def Let_def set_child_def less_not_sym)

lemma update_ref_leaf:
  assumes "inode T par = Some n" "lnode T i = Some lf" "i < CAPACITY"
  shows "\<exists>T'. update_ref T par (MAX_INDEX - i) d = Ok T' \<and> root T' = root T
    \<and> inode T' = (inode T)(par \<mapsto> set_child d (MAX_INDEX - i) n)
    \<and> lnode T' = (lnode T)(i \<mapsto> lf\<lparr>leaf_parent := par\<rparr>)"
  using assms by (simp add: update_ref_def Let_def set_child_def leaf_pointer)

text \<open>Hanging a represented subtree below another node.\<close>

lemma update_ref_rep:
  assumes "inode T par = Some n" "rep (inode T) (lnode T) p s" "par \<notin> set (nodes s)" "distinct (nodes s)"
  shows "\<exists>T'. update_ref T par (ptr s) d = Ok T' \<and> root T' = root T \<and> relinked T T'
    \<and> rep (inode T') (lnode T') par s
    \<and> inode T' par = Some (set_child d (ptr s) n)
    \<and> (\<forall>j. j \<noteq> par \<longrightarrow> j \<notin> set (nodes s) \<longrightarrow> inode T' j = inode T j)
    \<and> (\<forall>j. j \<notin> set (leaf_ids s) \<longrightarrow> lnode T' j = lnode T j)"
proof (cases s)
  case (Lf i k)
  with assms(2) obtain lf where "lnode T i = Some lf" "shape lf = (p, k)" "i < CAPACITY"
    by auto
  with update_ref_leaf [OF assms(1), of i lf d] Lf relinked_update_ref show ?thesis
    by (fastforce simp: shape_def)
next
  case (Nd i m l r)
  with assms obtain cn where cn: "inode T i = Some cn" "i \<noteq> par" "i < PARTITION_INDEX"
      "cn = \<lparr>node_mask = m, node_parent = p, node_left = ptr l, node_right = ptr r\<rparr>"
    by auto
  obtain T' where T': "update_ref T par (ptr s) d = Ok T'" "lnode T' = lnode T" "root T' = root T"
      "inode T' = (inode T)(par \<mapsto> set_child d i n, i \<mapsto> cn\<lparr>node_parent := par\<rparr>)"
    using update_ref_node [OF assms(1) cn(1-3), of d] Nd by auto
  have "rep (inode T') (lnode T') i u \<longleftrightarrow> rep (inode T) (lnode T) i u" if "u = l \<or> u = r" for u
    by (rule rep_cong) (use that assms(3,4) Nd T' in auto)
  then have "rep (inode T') (lnode T') par s"
    using assms(2) Nd T'(4) cn by auto
  with T' relinked_update_ref Nd cn(2) show ?thesis
    by auto
qed

subsection \<open>Linking the new node\<close>

lemma fill_distinct:
  assumes "distinct (nodes (fill C s))" "distinct (leaf_ids (fill C s))"
  shows "distinct (nodes s)" "set (nodes s) \<inter> ctxt_nodes C = {}" "set (leaf_ids s) \<inter> ctxt_leaf_ids C = {}"
  using assms unfolding nodes_fill leafs_fill by auto

lemma ctxt_nodes_Cons:
  "ctxt_nodes ((i, m, d, t) # C) = insert i (set (nodes t) \<union> ctxt_nodes C)"
  "ctxt_leaf_ids ((i, m, d, t) # C) = set (leaf_ids t) \<union> ctxt_leaf_ids C"
  by auto

lemma ctxt_parent_node: "C \<noteq> [] \<Longrightarrow> ctxt_parent C \<in> ctxt_nodes C"
  by (cases C) auto

lemma ctxt_parent_less: "rep_ctxt I L x C \<Longrightarrow> C \<noteq> [] \<Longrightarrow> ctxt_parent C < PARTITION_INDEX"
  by (cases C rule: ctxt_parent.cases) auto

lemma ptr_fill_Cons: "ptr (fill (f # C) s) = ptr (fill (f # C) s')"
proof (induction C arbitrary: f s s')
  case Nil
  then show ?case
    by (cases f) simp
next
  case (Cons g C)
  obtain i m d t where f: "f = (i, m, d, t)"
    by (cases f)
  show ?case
    unfolding f fill.simps(2) [of i m d t] by (rule Cons.IH)
qed

text \<open>
  The parent of the split subtree, or the root of the tree, is made to refer to the new node.
\<close>

lemma link_parent:
  assumes "rep (inode T) (lnode T) PARTITION_INDEX (fill C s)" "root T = ptr (fill C s)"
    and "distinct (nodes (fill C s))" "distinct (leaf_ids (fill C s))"
    and "inode T ni = Some (internal_node_new m)" "ni \<notin> set (nodes (fill C s))" "ni < PARTITION_INDEX"
  shows "\<exists>T'. (if is_partition_index (ctxt_parent C) then Ok (T\<lparr>root := ni\<rparr>)
      else update_ref T (ctxt_parent C) ni (is_left_child T (ctxt_parent C) (ptr s))) = Ok T'
    \<and> relinked T T' \<and> lnode T' = lnode T \<and> root T' = ptr (fill C (join m ni nl key s))
    \<and> inode T' ni = Some ((internal_node_new m)\<lparr>node_parent := ctxt_parent C\<rparr>)
    \<and> rep_ctxt (inode T') (lnode T') ni C \<and> rep (inode T') (lnode T') (ctxt_parent C) s"
proof (cases C)
  case Nil
  with assms show ?thesis
    by (simp add: is_partition_index_def internal_node_new_def join_def)
next
  case (Cons f D)
  obtain i m' d t where f: "f = (i, m', d, t)"
    by (cases f)
  have C: "C = (i, m', d, t) # D"
    by (simp add: Cons f)
  have r: "rep_ctxt (inode T) (lnode T) (ptr s) C" "rep (inode T) (lnode T) i s"
    using assms(1) rep_fill [of "inode T" "lnode T" C s] by (simp_all add: C)
  then obtain n where n: "inode T i = Some n" and i: "i < PARTITION_INDEX"
    by (auto simp: C)
  have new: "ni \<notin> ctxt_nodes C" "ni \<notin> set (nodes s)" "ni \<noteq> i"
    using assms(6) by (auto simp: nodes_fill C split: if_splits)
  have left: "is_left_child T i (ptr s) = d"
    using is_left_child_rep assms(1,3,4) unfolding C by blast
  obtain T' where T': "update_ref T i ni d = Ok T'" "lnode T' = lnode T" "root T' = root T"
      "inode T' = (inode T)(i \<mapsto> set_child d ni n, ni \<mapsto> (internal_node_new m)\<lparr>node_parent := i\<rparr>)"
    using update_ref_node [OF n assms(5) new(3) assms(7)] by blast
  have sep: "i \<notin> set (nodes s)" "i \<notin> set (nodes t) \<union> ctxt_nodes D"
    using assms(3) unfolding nodes_fill C by (auto split: if_splits)
  have "rep_ctxt (inode T') (lnode T') ni C"
    unfolding C by (rule rep_ctxt_replace [OF r(1) [unfolded C]])
      (use T' n new sep in \<open>auto simp: C set_child_def\<close>)
  moreover have "rep (inode T') (lnode T') i s"
    by (rule rep_cong [THEN iffD2, OF _ _ r(2)]) (use T' new sep in \<open>auto simp: C\<close>)
  moreover have "root T' = ptr (fill C (join m ni nl key s))"
    unfolding T'(3) assms(2) C by (rule ptr_fill_Cons)
  moreover have "(if is_partition_index (ctxt_parent C) then Ok (T\<lparr>root := ni\<rparr>)
      else update_ref T (ctxt_parent C) ni (is_left_child T (ctxt_parent C) (ptr s))) = Ok T'"
    using T'(1) i left by (simp add: C is_partition_index_def)
  moreover have "inode T' ni = Some ((internal_node_new m)\<lparr>node_parent := ctxt_parent C\<rparr>)"
      "ctxt_parent C = i"
    using T'(4) by (simp_all add: C)
  ultimately show ?thesis
    using T'(2) relinked_update_ref [OF T'(1)] by (intro exI [of _ T'] conjI) (simp_all only:)
qed

text \<open>Then the new leaf and the split subtree become the children of the new node.\<close>

lemma link_children:
  assumes ctxt: "rep_ctxt (inode T) (lnode T) ni C" and s: "rep (inode T) (lnode T) (ctxt_parent C) s"
    and ni: "inode T ni = Some ((internal_node_new m)\<lparr>node_parent := ctxt_parent C\<rparr>)" "ni < PARTITION_INDEX"
      "ni \<notin> set (nodes (fill C s))"
    and nl: "lnode T nl = Some lf" "leaf_key lf = key" "nl < CAPACITY" "nl \<notin> set (leaf_ids (fill C s))"
    and dist: "distinct (nodes (fill C s))" "distinct (leaf_ids (fill C s))"
  shows "\<exists>T6 T7. update_ref T ni (MAX_INDEX - nl) (key AND m = 0) = Ok T6
    \<and> update_ref T6 ni (ptr s) (key AND m \<noteq> 0) = Ok T7
    \<and> relinked T T7 \<and> root T7 = root T
    \<and> rep (inode T7) (lnode T7) PARTITION_INDEX (fill C (join m ni nl key s))"
proof -
  let ?b = "key AND m = 0"
  note sep = fill_distinct [OF dist]
  have fresh: "ni \<notin> set (nodes s)" "ni \<notin> ctxt_nodes C" "nl \<notin> set (leaf_ids s)" "nl \<notin> ctxt_leaf_ids C"
    using ni(3) nl(4) unfolding nodes_fill leafs_fill by auto
  obtain T6 where T6: "update_ref T ni (MAX_INDEX - nl) ?b = Ok T6" "root T6 = root T"
      "inode T6 = (inode T)(ni \<mapsto> set_child ?b (MAX_INDEX - nl)
         ((internal_node_new m)\<lparr>node_parent := ctxt_parent C\<rparr>))"
      "lnode T6 = (lnode T)(nl \<mapsto> lf\<lparr>leaf_parent := ni\<rparr>)"
    using update_ref_leaf [OF ni(1) nl(1,3)] by blast
  have s6: "rep (inode T6) (lnode T6) (ctxt_parent C) s"
    by (rule rep_cong [THEN iffD2, OF _ _ s]) (use T6 fresh in auto)
  have "inode T6 ni = Some (set_child ?b (MAX_INDEX - nl)
      ((internal_node_new m)\<lparr>node_parent := ctxt_parent C\<rparr>))"
    by (simp add: T6(3))
  from update_ref_rep [OF this s6 fresh(1) sep(1), of "\<not> ?b"] obtain T7 where
    T7: "update_ref T6 ni (ptr s) (\<not> ?b) = Ok T7" "root T7 = root T6" "relinked T6 T7"
      "rep (inode T7) (lnode T7) ni s"
      "inode T7 ni = Some (set_child (\<not> ?b) (ptr s) (set_child ?b (MAX_INDEX - nl)
        ((internal_node_new m)\<lparr>node_parent := ctxt_parent C\<rparr>)))"
      "\<And>j. j \<noteq> ni \<Longrightarrow> j \<notin> set (nodes s) \<Longrightarrow> inode T7 j = inode T6 j"
      "\<And>j. j \<notin> set (leaf_ids s) \<Longrightarrow> lnode T7 j = lnode T6 j"
    by blast
  have "rep_ctxt (inode T7) (lnode T7) ni C"
  proof (rule rep_ctxt_cong [THEN iffD2, OF _ _ ctxt])
    fix j assume "j \<in> ctxt_nodes C"
    then have "j \<noteq> ni" "j \<notin> set (nodes s)"
      using fresh(2) sep(2) by auto
    then show "inode T7 j = inode T j"
      using T7(6) by (simp add: T6(3))
  next
    fix j assume "j \<in> ctxt_leaf_ids C"
    then have "j \<noteq> nl" "j \<notin> set (leaf_ids s)"
      using fresh(4) sep(3) by auto
    then show "map_option shape (lnode T7 j) = map_option shape (lnode T j)"
      using T7(7) by (simp add: T6(4))
  qed
  moreover have "rep (inode T7) (lnode T7) (ctxt_parent C) (join m ni nl key s)"
    using T7(4,5,7) fresh(3) ni(2) nl(2,3)
    by (simp add: join_def T6(4) set_child_def internal_node_new_def shape_def)
  moreover have "ptr (join m ni nl key s) = ni"
    by (simp add: join_def)
  ultimately have "rep (inode T7) (lnode T7) PARTITION_INDEX (fill C (join m ni nl key s))"
    by (simp add: rep_fill)
  moreover have "relinked T T7"
    using relinked_trans [OF relinked_update_ref [OF T6(1)] T7(3)] .
  ultimately show ?thesis
    using T6(1,2) T7(1,2) by auto
qed

subsection \<open>Insertion\<close>

lemma update_min_max_leaf_simps [simp]:
  "internal_nodes (update_min_max_leaf T i k) = internal_nodes T"
  "leaves (update_min_max_leaf T i k) = leaves T"
  "root (update_min_max_leaf T i k) = root T"
  "next_internal_node_index (update_min_max_leaf T i k) = next_internal_node_index T"
  "next_leaf_node_index (update_min_max_leaf T i k) = next_leaf_node_index T"
  by (auto simp: update_min_max_leaf_def Let_def split: option.splits)

lemma update_min_max_leaf_extrema:
  assumes "lnode T (min_leaf_index T) = Some lmin" "lnode T (max_leaf_index T) = Some lmax"
  shows "min_leaf_index (update_min_max_leaf T i k) = (if k < leaf_key lmin then i else min_leaf_index T)"
    "max_leaf_index (update_min_max_leaf T i k) = (if leaf_key lmax < k then i else max_leaf_index T)"
  using assms by (auto simp: update_min_max_leaf_def)

lemma leafs_fill_join:
  "\<exists>xs ys. leafs (fill C s) = xs @ ys \<and> leafs (fill C (join m ni nl key s)) = xs @ (nl, key) # ys"
proof (cases "key AND m = 0")
  case True
  then show ?thesis
    by (intro exI [of _ "left_leafs C"] exI [of _ "leafs s @ right_leafs C"])
      (simp add: leafs_fill join_def)
next
  case False
  then show ?thesis
    by (intro exI [of _ "left_leafs C @ leafs s"] exI [of _ "right_leafs C"])
      (simp add: leafs_fill join_def)
qed

lemma nodes_fill_join:
  "set (nodes (fill C (join m ni nl key s))) = insert ni (set (nodes (fill C s)))"
  "distinct (nodes (fill C s)) \<Longrightarrow> ni \<notin> set (nodes (fill C s)) \<Longrightarrow>
    distinct (nodes (fill C (join m ni nl key s)))"
  by (auto simp: nodes_fill join_def)

lemma extrema_insert:
  fixes key :: "'a::linorder"
  assumes "sorted_wrt (<) (map snd (xs @ (nl, key) # ys))" "xs @ ys \<noteq> []"
  shows "hd (map fst (xs @ (nl, key) # ys)) =
      (if key < snd (hd (xs @ ys)) then nl else fst (hd (xs @ ys)))"
    and "last (map fst (xs @ (nl, key) # ys)) =
      (if snd (last (xs @ ys)) < key then nl else fst (last (xs @ ys)))"
proof -
  show "hd (map fst (xs @ (nl, key) # ys)) =
      (if key < snd (hd (xs @ ys)) then nl else fst (hd (xs @ ys)))"
    using assms by (cases xs; cases ys) (auto simp: sorted_wrt_append dest: less_asym)
  show "last (map fst (xs @ (nl, key) # ys)) =
      (if snd (last (xs @ ys)) < key then nl else fst (last (xs @ ys)))"
    using assms
    by (cases xs rule: rev_cases; cases ys rule: rev_cases)
      (auto simp: sorted_wrt_append dest: less_asym)
qed

lemma represents_insert:
  assumes T: "represents T t" "next_leaf_node_index T < CAPACITY"
    and t': "leafs t = xs @ ys" "leafs t' = xs @ (next_leaf_node_index T, key) # ys" "crit t'"
      "set (nodes t') = insert (next_internal_node_index T) (set (nodes t))" "distinct (nodes t')"
    and U: "root U = ptr t'" "rep (inode U) (lnode U) PARTITION_INDEX t'"
      "dom (inode U) = insert (next_internal_node_index T) (dom (inode T))"
      "\<And>j. map_option content (lnode U j) =
         (if j = next_leaf_node_index T then Some (key, v) else map_option content (lnode T j))"
      "min_leaf_index U = min_leaf_index T" "max_leaf_index U = max_leaf_index T"
      "next_internal_node_index U = next_internal_node_index T + 1"
      "next_leaf_node_index U = next_leaf_node_index T + 1"
  shows "represents (update_min_max_leaf U (next_leaf_node_index T) key) t'"
proof -
  let ?nl = "next_leaf_node_index T" and ?ni = "next_internal_node_index T"
  note less = represents_nodes_less [OF T(1)] represents_ids_less [OF T(1)] represents_counters [OF T(1)]
  have fresh: "?nl \<notin> set (leaf_ids t)"
    using less(2) by blast
  have lnode_U: "\<exists>lf. lnode U i = Some lf \<and> leaf_key lf = k" if "(i, k) \<in> set (leafs t)" for i k
  proof -
    have "i \<noteq> ?nl"
      using fresh that by force
    then show ?thesis
      using U(4) [of i] linked_leaf_iff [OF represents_linked [OF T(1)], of i k] that by (auto simp: content_def)
  qed
  have ne: "xs @ ys \<noteq> []"
    using leafs_neq_Nil [of t] unfolding t'(1) .
  have minmax: "min_leaf_index U = fst (hd (xs @ ys))" "max_leaf_index U = fst (last (xs @ ys))"
    using represents_min [OF T(1)] represents_max [OF T(1)] U(5,6) ne
    by (simp_all add: t'(1) hd_map last_map del: map_append)
  obtain lmin lmax where ends: "lnode U (min_leaf_index U) = Some lmin" "leaf_key lmin = snd (hd (xs @ ys))"
      "lnode U (max_leaf_index U) = Some lmax" "leaf_key lmax = snd (last (xs @ ys))"
    using lnode_U [of "fst (hd (xs @ ys))" "snd (hd (xs @ ys))"] hd_in_set [OF ne]
      lnode_U [of "fst (last (xs @ ys))" "snd (last (xs @ ys))"] last_in_set [OF ne]
    unfolding minmax t'(1) prod.collapse by blast
  have sorted: "sorted_wrt (<) (map snd (xs @ (?nl, key) # ys))"
    using crit_sorted [OF t'(3)] unfolding t'(2) .
  have dom: "dom (lnode U) = insert ?nl (dom (lnode T))"
  proof (rule set_eqI)
    show "j \<in> dom (lnode U) \<longleftrightarrow> j \<in> insert ?nl (dom (lnode T))" for j
      using U(4) [of j] by (cases "lnode U j"; cases "lnode T j") (simp_all add: domIff split: if_splits)
  qed
  have ids: "set (leaf_ids t') = insert ?nl (set (leaf_ids t))"
    by (simp add: t'(1,2))
  show ?thesis
    unfolding represents_def linked_def update_min_max_leaf_simps U(3,7,8) dom ids t'(4)
  proof (intro conjI ballI)
    show "min_leaf_index (update_min_max_leaf U ?nl key) = hd (leaf_ids t')"
      unfolding t'(2) extrema_insert(1) [OF sorted ne] update_min_max_leaf_extrema(1) [OF ends(1,3)]
        ends(2) minmax ..
    show "max_leaf_index (update_min_max_leaf U ?nl key) = last (leaf_ids t')"
      unfolding t'(2) extrema_insert(2) [OF sorted ne] update_min_max_leaf_extrema(2) [OF ends(1,3)]
        ends(4) minmax ..
    show "distinct (leaf_ids t')"
      using linked_ids_distinct [OF represents_linked [OF T(1)]] fresh by (simp add: t'(1,2))
    show "j < ?nl + 1" if "j \<in> insert ?nl (set (leaf_ids t))" for j
      using that less(2) [of j] unfolding less_suc [OF T(2)] by (auto simp del: set_map)
    show "j < ?ni + 1" if "j \<in> insert ?ni (set (nodes t))" for j
      using that less(1) [of j] by (auto simp: less_suc [OF less(3)])
    show "?ni + 1 < ?nl + 1"
      using less(3) by (simp add: word_less_nat_alt unat_suc [OF T(2)] unat_suc [OF less(3)])
    show "?nl + 1 \<le> CAPACITY"
      using T(2) by (rule inc_le)
  qed (use U(1,2) t'(3,5) linked_dom_nodes [OF represents_linked [OF T(1)]] linked_dom_leaves [OF represents_linked [OF T(1)]] in simp_all)
qed

lemma next_index_Leaf:
  "next_leaf_node_index T < CAPACITY \<Longrightarrow>
    next_index T Leaf = Ok (next_leaf_node_index T, T\<lparr>next_leaf_node_index := next_leaf_node_index T + 1\<rparr>)"
  by (simp add: inc_le Let_def)

lemma next_index_Internal:
  "next_internal_node_index T < c \<Longrightarrow>
    next_index T Internal =
      Ok (next_internal_node_index T, T\<lparr>next_internal_node_index := next_internal_node_index T + 1\<rparr>)"
  using checked_add_eq_Some [of "next_internal_node_index T" 1 "next_internal_node_index T + 1"]
  by (simp add: unat_suc Let_def)

lemma insert_link:
  assumes "represents T t" "key \<notin> set (keys t)" "next_leaf_node_index T < CAPACITY"
    and ni: "ni = next_internal_node_index T" and nl: "nl = next_leaf_node_index T"
    and c: "closest key t = (i, c)" and m: "m = new_mask key c" and split: "split_at key m [] t = (C, s)"
    and inode: "inode U = (inode T)(ni \<mapsto> internal_node_new m)"
    and lnode: "lnode U = (lnode T)(nl \<mapsto> leaf_node_new key v)" and root: "root U = root T"
  shows "insert_loop U key m (root U) PARTITION_INDEX = Some (Ok (ptr s, ctxt_parent C))"
    and "\<exists>U5 U6 U7. (if is_partition_index (ctxt_parent C) then Ok (U\<lparr>root := ni\<rparr>)
        else update_ref U (ctxt_parent C) ni (is_left_child U (ctxt_parent C) (ptr s))) = Ok U5
      \<and> update_ref U5 ni (MAX_INDEX - nl) (key AND m = 0) = Ok U6
      \<and> update_ref U6 ni (ptr s) (key AND m \<noteq> 0) = Ok U7
      \<and> relinked U U7 \<and> root U7 = ptr (fill C (join m ni nl key s))
      \<and> rep (inode U7) (lnode U7) PARTITION_INDEX (fill C (join m ni nl key s))"
proof -
  have t: "t = fill C s"
    using fill_split_at [OF split] by simp
  have fresh: "ni \<notin> set (nodes t)" "nl \<notin> set (leaf_ids t)"
    using represents_nodes_less [OF assms(1)] represents_ids_less [OF assms(1)] ni nl by blast+
  have less: "ni < PARTITION_INDEX" "nl < CAPACITY"
    using represents_counters [OF assms(1)] assms(3) CAPACITY_less_PARTITION [where 'k = 'a]
    unfolding ni nl by (blast intro: less_trans)+
  have repU: "rep (inode U) (lnode U) (ctxt_parent []) t"
    unfolding ctxt_parent.simps by (rule rep_cong [THEN iffD2, OF _ _ linked_rep [OF represents_linked [OF assms(1)]]])
      (use fresh in \<open>auto simp: inode lnode\<close>)
  note U = repU [unfolded t ctxt_parent.simps] root [unfolded linked_root [OF represents_linked [OF assms(1)]] t]
    linked_nodes_distinct [OF represents_linked [OF assms(1)], unfolded t] linked_ids_distinct [OF represents_linked [OF assms(1)], unfolded t]
  show "insert_loop U key m (root U) PARTITION_INDEX = Some (Ok (ptr s, ctxt_parent C))"
    using insert_loop_rep [OF repU split] unfolding root linked_root [OF represents_linked [OF assms(1)]] ctxt_parent.simps .
  have new: "inode U ni = Some (internal_node_new m)" "lnode U nl = Some (leaf_node_new key v)"
      "leaf_key (leaf_node_new key v) = key"
    by (simp_all add: inode lnode leaf_node_new_def)
  obtain U5 where U5: "(if is_partition_index (ctxt_parent C) then Ok (U\<lparr>root := ni\<rparr>)
        else update_ref U (ctxt_parent C) ni (is_left_child U (ctxt_parent C) (ptr s))) = Ok U5"
      "relinked U U5" "lnode U5 = lnode U" "root U5 = ptr (fill C (join m ni nl key s))"
      "inode U5 ni = Some ((internal_node_new m)\<lparr>node_parent := ctxt_parent C\<rparr>)"
      "rep_ctxt (inode U5) (lnode U5) ni C" "rep (inode U5) (lnode U5) (ctxt_parent C) s"
    using link_parent [OF U new(1) fresh(1) [unfolded t] less(1), of nl key]
    by (elim exE conjE) (rule that)
  obtain U6 U7 where "update_ref U5 ni (MAX_INDEX - nl) (key AND m = 0) = Ok U6"
      "update_ref U6 ni (ptr s) (key AND m \<noteq> 0) = Ok U7"
      "relinked U5 U7" "root U7 = root U5"
      "rep (inode U7) (lnode U7) PARTITION_INDEX (fill C (join m ni nl key s))"
    using link_children [OF U5(6,7,5) less(1) fresh(1) [unfolded t] new(2) [folded U5(3)] new(3) less(2)
        fresh(2) [unfolded t] U(3,4)] by (elim exE conjE) (rule that)
  with U5(1,2,4) relinked_trans [OF U5(2)] show "\<exists>U5 U6 U7. (if is_partition_index (ctxt_parent C) then Ok (U\<lparr>root := ni\<rparr>)
        else update_ref U (ctxt_parent C) ni (is_left_child U (ctxt_parent C) (ptr s))) = Ok U5
      \<and> update_ref U5 ni (MAX_INDEX - nl) (key AND m = 0) = Ok U6
      \<and> update_ref U6 ni (ptr s) (key AND m \<noteq> 0) = Ok U7
      \<and> relinked U U7 \<and> root U7 = ptr (fill C (join m ni nl key s))
      \<and> rep (inode U7) (lnode U7) PARTITION_INDEX (fill C (join m ni nl key s))"
    by (intro exI [of _ U5] exI [of _ U6] exI [of _ U7] conjI) simp_all
qed

lemma insert_rep:
  assumes T: "represents T t" "bt_ok (internal_nodes T)" "bt_ok (leaves T)"
    and key: "key \<notin> set (keys t)" "next_leaf_node_index T < CAPACITY"
  shows "\<exists>T' t'. critbit_insert T key v = Ok T' \<and> represents T' t'
    \<and> bt_ok (internal_nodes T') \<and> bt_ok (leaves T') \<and> set (keys t') = insert key (set (keys t))
    \<and> (\<forall>j. map_option content (lnode T' j) =
         (if j = next_leaf_node_index T then Some (key, v) else map_option content (lnode T j)))"
proof -
  let ?nl = "next_leaf_node_index T" and ?ni = "next_internal_node_index T"
  obtain i c where c: "closest key t = (i, c)"
    by fastforce
  define m where "m = new_mask key c"
  obtain C s where split: "split_at key m [] t = (C, s)"
    by fastforce
  have ic: "(i, c) \<in> set (leafs t)" "c \<noteq> key"
    using closest_leaf [of key t] c key(1) by force+
  define T2 where "T2 = T\<lparr>next_leaf_node_index := ?nl + 1, leaves := bt_insert ?nl (leaf_node_new key v) (leaves T)\<rparr>"
  define T4 where "T4 = T2\<lparr>next_internal_node_index := ?ni + 1,
    internal_nodes := bt_insert ?ni (internal_node_new m) (internal_nodes T)\<rparr>"
  have inode: "inode T4 = (inode T)(?ni \<mapsto> internal_node_new m)"
    and lnode: "lnode T4 = (lnode T)(?nl \<mapsto> leaf_node_new key v)" and root: "root T4 = root T"
    by (simp_all add: T2_def T4_def)
  note link = insert_link [OF T(1) key refl refl c m_def split inode lnode root]
  obtain U5 U6 U7 where U: "(if is_partition_index (ctxt_parent C) then Ok (T4\<lparr>root := ?ni\<rparr>)
        else update_ref T4 (ctxt_parent C) ?ni (is_left_child T4 (ctxt_parent C) (ptr s))) = Ok U5"
      "update_ref U5 ?ni (MAX_INDEX - ?nl) (key AND m = 0) = Ok U6"
      "update_ref U6 ?ni (ptr s) (key AND m \<noteq> 0) = Ok U7"
      "relinked T4 U7" "root U7 = ptr (fill C (join m ?ni ?nl key s))"
      "rep (inode U7) (lnode U7) PARTITION_INDEX (fill C (join m ?ni ?nl key s))"
    using link(2) by (elim exE conjE) (rule that)
  have fresh: "?ni \<notin> set (nodes t)" "?nl \<notin> set (leaf_ids t)"
    using represents_nodes_less [OF T(1)] represents_ids_less [OF T(1)] by blast+
  then have None: "inode T ?ni = None" "lnode T ?nl = None"
    using linked_dom_nodes [OF represents_linked [OF T(1)]] linked_dom_leaves [OF represents_linked [OF T(1)]] by (auto simp: domIff)
  have closest: "get_closest_leaf_index T2 key = Ok (Some i)"
    using get_closest_leaf_index_rep [of T2 t "lnode T" PARTITION_INDEX key] linked_root [OF represents_linked [OF T(1)]]
      linked_rep [OF represents_linked [OF T(1)]] c by (simp add: T2_def)
  obtain lf where lf: "lnode T i = Some lf" "leaf_key lf = c"
    using ic(1) linked_leaf_iff [OF represents_linked [OF T(1)]] by blast
  have "critbit_insert T key v = Ok (update_min_max_leaf U7 ?nl key)"
    using closest lf ic(2) None link(1) U(1) [unfolded T4_def T2_def] U(2,3)
      represents_counters [OF T(1)] key(2)
    by (auto simp: critbit_insert_def next_index_Leaf next_index_Internal T2_def T4_def Let_def
        simp del: next_index.simps simp flip: m_def)
  moreover have crit: "crit (fill C (join m ?ni ?nl key s))"
      "set (keys (fill C (join m ?ni ?nl key s))) = insert key (set (keys t))"
    using crit_split_join [OF linked_crit [OF represents_linked [OF T(1)]] c ic(2), of "[]" C s ?ni ?nl] split
      new_mask_eq [of key c] ic(2) by (auto simp: m_def)
  moreover have U7: "dom (inode U7) = insert ?ni (dom (inode T))"
      "\<And>j. map_option content (lnode U7 j) =
         (if j = ?nl then Some (key, v) else map_option content (lnode T j))"
      "min_leaf_index U7 = min_leaf_index T" "max_leaf_index U7 = max_leaf_index T"
      "next_internal_node_index U7 = ?ni + 1" "next_leaf_node_index U7 = ?nl + 1"
      "bt_ok (internal_nodes U7)" "bt_ok (leaves U7)"
    using U(4) T(2,3) unfolding relinked_def inode lnode
    by (simp_all add: T2_def T4_def content_def leaf_node_new_def)
  moreover have "represents (update_min_max_leaf U7 ?nl key) (fill C (join m ?ni ?nl key s))"
  proof -
    have t: "fill C s = t"
      using fill_split_at [OF split] by simp
    obtain xs ys where xy: "leafs t = xs @ ys" "leafs (fill C (join m ?ni ?nl key s)) = xs @ (?nl, key) # ys"
      using leafs_fill_join [of C s m ?ni ?nl key] unfolding t by blast
    show ?thesis
      by (rule represents_insert [OF T(1) key(2) xy crit(1) nodes_fill_join(1) [of C m ?ni ?nl key s, unfolded t]
          nodes_fill_join(2) [of C s ?ni, unfolded t, OF linked_nodes_distinct [OF represents_linked [OF T(1)]] fresh(1)] U(5,6) U7(1-6)])
  qed
  ultimately show ?thesis
    by (intro exI [of _ "update_min_max_leaf U7 ?nl key"] exI [of _ "fill C (join m ?ni ?nl key s)"]) simp
qed

lemma tree_map_content:
  assumes "linked T t" "bt_ok (leaves T)"
  shows "tree_map T k = Some v \<longleftrightarrow> (\<exists>i. map_option content (lnode T i) = Some (k, v))"
  unfolding tree_map_iff [OF assms] by (auto simp: content_def)

lemma map_eqI: "(\<And>v. m k = Some v \<longleftrightarrow> m' k = Some v) \<Longrightarrow> m k = m' k"
  by (metis not_Some_eq)

lemma tree_map_insert:
  assumes "linked T t" "bt_ok (leaves T)" "linked T' t'" "bt_ok (leaves T')"
    and "key \<notin> dom (tree_map T)" "lnode T n = None"
    and "\<And>j. map_option content (lnode T' j) =
      (if j = n then Some (key, v) else map_option content (lnode T j))"
  shows "tree_map T' = (tree_map T)(key \<mapsto> v)"
proof (intro ext map_eqI)
  fix k w
  have "(\<exists>i. (if i = n then Some a else f i) = Some b) \<longleftrightarrow> b = a \<or> (\<exists>i. f i = Some b)"
    if "f n = None" for f :: "_ \<Rightarrow> 'c option" and a b
    using that by (metis option.distinct(1) option.inject)
  from this [of "\<lambda>j. map_option content (lnode T j)"]
  have "tree_map T' k = Some w \<longleftrightarrow> (k = key \<and> w = v) \<or> tree_map T k = Some w"
    unfolding tree_map_content [OF assms(1,2)] tree_map_content [OF assms(3,4)] assms(7)
    using assms(6) by simp
  then show "tree_map T' k = Some w \<longleftrightarrow> ((tree_map T)(key \<mapsto> v)) k = Some w"
    using assms(5) by auto
qed

lemma insert_first:
  assumes "0 < (CAPACITY :: 'k::len word)"
  shows "\<exists>T'. critbit_insert (critbit_new :: ('k, 'v) critbit) key v = Ok T' \<and> wf_tree T'
    \<and> tree_map T' = [key \<mapsto> v]"
proof -
  let ?new = "critbit_new :: ('k, 'v) critbit"
  let ?T = "?new\<lparr>next_leaf_node_index := 1, leaves := [(0, leaf_node_new key v)], root := MAX_INDEX,
    max_leaf_index := 0, min_leaf_index := 0\<rparr>"
  have "critbit_insert ?new key v = Ok ?T"
    using assms next_index_Leaf [of ?new]
    by (simp add: critbit_insert_def get_closest_leaf_index_def critbit_new_def del: next_index.simps)
  moreover have "represents ?T (Lf 0 key)"
    using assms inc_le [OF assms]
    by (auto simp: represents_def linked_def shape_def leaf_node_new_def critbit_new_def dom_def)
  then have "wf_tree ?T"
    by (auto simp: wf_tree_def critbit_new_def)
  moreover have "tree_map ?T = [key \<mapsto> v]"
    by (simp add: tree_map_def entries_def leaf_node_new_def)
  ultimately show ?thesis
    by blast
qed

lemma insert_duplicate:
  assumes "represents T t" "key \<in> set (keys t)" "next_leaf_node_index T < CAPACITY"
  shows "critbit_insert T key v = Err AlreadyExist"
proof -
  let ?nl = "next_leaf_node_index T"
  let ?T = "T\<lparr>next_leaf_node_index := ?nl + 1, leaves := bt_insert ?nl (leaf_node_new key v) (leaves T)\<rparr>"
  have "lnode T ?nl = None"
    using represents_ids_less [OF assms(1)] linked_dom_leaves [OF represents_linked [OF assms(1)]] by blast
  moreover obtain i where i: "closest key t = (i, key)"
    using closest_key [OF linked_crit [OF represents_linked [OF assms(1)]] assms(2)] by (metis prod.collapse)
  moreover obtain lf where "lnode T i = Some lf" "leaf_key lf = key"
    using closest_leaf [of key t] i linked_leaf_iff [OF represents_linked [OF assms(1)]] by auto
  moreover have "get_closest_leaf_index ?T key = Ok (Some i)"
    using get_closest_leaf_index_rep [of ?T t "lnode T" PARTITION_INDEX key] linked_root [OF represents_linked [OF assms(1)]]
      linked_rep [OF represents_linked [OF assms(1)]] i by simp
  ultimately show ?thesis
    using assms(3)
    by (simp add: critbit_insert_def next_index_Leaf leaf_node_new_def Let_def del: next_index.simps)
qed

lemma insert_full: "next_leaf_node_index T = CAPACITY \<Longrightarrow> critbit_insert T key v = Err ExceedCapacity"
  using CAPACITY_suc [where 'k = 'a]
  by (simp add: critbit_insert_def Let_def ensure_def)

text \<open>
  Insertion refines the update of a map, on every branch. A full tree is rejected with
  \<open>ExceedCapacity\<close>, a key that is present with \<open>AlreadyExist\<close>; otherwise the call returns
  a tree that is again well-formed and stands for the map updated at the key.
\<close>

lemma insert_wf:
  assumes "wf_tree T"
  shows "if next_leaf_node_index T = CAPACITY then critbit_insert T key v = Err ExceedCapacity
    else if key \<in> dom (tree_map T) then critbit_insert T key v = Err AlreadyExist
    else \<exists>T'. critbit_insert T key v = Ok T' \<and> wf_tree T' \<and> tree_map T' = (tree_map T)(key \<mapsto> v)"
  using assms
proof (cases rule: wf_cases)
  case empty
  then have "next_leaf_node_index T \<noteq> CAPACITY \<Longrightarrow> 0 < (CAPACITY :: 'a word)"
    by (auto simp: critbit_new_def word_neq_0_conv)
  with empty show ?thesis
    using insert_first [of key v] by (simp add: insert_full)
next
  case (tree t)
  have less: "next_leaf_node_index T < CAPACITY" if "next_leaf_node_index T \<noteq> CAPACITY"
    using represents_capacity [OF tree(4)] that by simp
  have None: "lnode T (next_leaf_node_index T) = None"
    using represents_ids_less [OF tree(4)] linked_dom_leaves [OF tree(1)] by blast
  have "\<exists>T'. critbit_insert T key v = Ok T' \<and> wf_tree T' \<and> tree_map T' = (tree_map T)(key \<mapsto> v)"
    if new: "next_leaf_node_index T \<noteq> CAPACITY" "key \<notin> dom (tree_map T)"
  proof -
    obtain T' t' where T': "critbit_insert T key v = Ok T'" "represents T' t'" "bt_ok (internal_nodes T')"
        "bt_ok (leaves T')" "\<And>j. map_option content (lnode T' j) =
         (if j = next_leaf_node_index T then Some (key, v) else map_option content (lnode T j))"
      using insert_rep [OF tree(4,2,3) _ less [OF new(1)], of key v] new(2) tree_map_dom [OF tree(1,3)]
      by auto
    then show ?thesis
      using tree_map_insert [OF tree(1,3) represents_linked [OF T'(2)] T'(4) new(2) None T'(5)]
      by (auto simp: wf_tree_def)
  qed
  then show ?thesis
    using insert_full [of T] insert_duplicate [OF tree(4), of key v] less tree_map_dom [OF tree(1,3)]
    by auto
qed

end
