(* ===== verification/CritbitRemove.thy ===== *)
theory CritbitRemove
  imports CritbitInsert
begin

text \<open>
  Removal from the crit-bit tree: the parent of the removed leaf is replaced by the sibling of the
  leaf, the cached extrema move to the neighbours, and the last removal resets the tree.
\<close>

subsection \<open>Moving the extrema\<close>

lemma linked_cache [simp]:
  "linked (T\<lparr>min_leaf_index := x\<rparr>) t \<longleftrightarrow> linked T t"
  "linked (T\<lparr>max_leaf_index := x\<rparr>) t \<longleftrightarrow> linked T t"
  by (simp_all add: linked_def)

lemma shrink_min_rep:
  assumes "linked T t" "min_leaf_index T = hd (leaf_ids t)" "leafs t = xs @ (i, k) # ys" "xs @ ys \<noteq> []"
  shows "shrink_min T i k = Ok (False, T\<lparr>min_leaf_index := fst (hd (xs @ ys))\<rparr>)"
proof (cases xs)
  case Nil
  with assms(4) obtain e zs where "ys = e # zs"
    by (cases ys) auto
  then show ?thesis
    using assms(2,3) Nil next_leaf_rep [OF assms(1,3)] by (cases e) (simp add: shrink_min_def)
next
  case (Cons e zs)
  then have "min_leaf_index T = fst e" "fst e \<noteq> i"
    using assms(2,3) linked_ids_distinct [OF assms(1)] by auto
  then show ?thesis
    using Cons by (simp add: shrink_min_def)
qed

lemma shrink_max_rep:
  assumes "linked T t" "max_leaf_index T = last (leaf_ids t)" "leafs t = xs @ (i, k) # ys" "xs @ ys \<noteq> []"
  shows "shrink_max T i k = Ok (False, T\<lparr>max_leaf_index := fst (last (xs @ ys))\<rparr>)"
proof (cases ys rule: rev_cases)
  case Nil
  then show ?thesis
    using assms(2-4) previous_leaf_rep [OF assms(1,3)] by (simp add: shrink_max_def)
next
  case (snoc zs e)
  then have "max_leaf_index T = fst e" "fst e \<noteq> i"
    using assms(2,3) linked_ids_distinct [OF assms(1)] by auto
  then show ?thesis
    using snoc by (simp add: shrink_max_def)
qed

subsection \<open>Replacing the parent by the sibling\<close>

lemma promote_root_rep:
  assumes "rep (inode T) (lnode T) p u" "distinct (nodes u)"
  shows "\<exists>T'. promote_root T (ptr u) = Ok T' \<and> relinked T T' \<and> root T' = ptr u
    \<and> rep (inode T') (lnode T') PARTITION_INDEX u"
proof (cases u)
  case (Lf j k)
  with assms(1) obtain lf where lf: "lnode T j = Some lf" "shape lf = (p, k)" "j < CAPACITY"
    by auto
  with Lf ptr_less_iff [OF assms(1)] show ?thesis
    by (auto simp: promote_root_def relinked_def content_def shape_def)
next
  case (Nd j m l r)
  let ?T = "T\<lparr>root := j, internal_nodes := bt_insert j \<lparr>node_mask = m, node_parent = PARTITION_INDEX,
    node_left = ptr l, node_right = ptr r\<rparr> (internal_nodes T)\<rparr>"
  have j: "j < PARTITION_INDEX" "inode T j = Some \<lparr>node_mask = m, node_parent = p, node_left = ptr l, node_right = ptr r\<rparr>"
    "j \<notin> set (nodes l)" "j \<notin> set (nodes r)"
    using assms by (auto simp: Nd)
  have "rep (inode ?T) (lnode ?T) j v \<longleftrightarrow> rep (inode T) (lnode T) j v" if "v = l \<or> v = r" for v
    by (rule rep_cong) (use that j in auto)
  then have "rep (inode ?T) (lnode ?T) PARTITION_INDEX u"
    using assms(1) j(1) by (simp add: Nd)
  then show ?thesis
    using j(1,2) by (intro exI [of _ ?T]) (auto simp: Nd promote_root_def relinked_def)
qed

lemma graft_below:
  assumes D: "rep_ctxt (inode U) (lnode U) p ((g, m, d, w) # E)" and u: "rep (inode U) (lnode U) p u"
    and root: "root U = ptr (fill ((g, m, d, w) # E) s)"
    and dist: "distinct (nodes (fill ((g, m, d, w) # E) u))" "distinct (leaf_ids (fill ((g, m, d, w) # E) u))"
  shows "\<exists>T'. update_ref U g (ptr u) d = Ok T' \<and> relinked U T' \<and> root T' = ptr (fill ((g, m, d, w) # E) u)
    \<and> rep (inode T') (lnode T') PARTITION_INDEX (fill ((g, m, d, w) # E) u)"
proof -
  let ?D = "(g, m, d, w) # E"
  note sep = fill_distinct [OF dist]
  have g: "g \<notin> set (nodes u)" "g \<notin> set (nodes w) \<union> ctxt_nodes E"
    using dist(1) unfolding nodes_fill by (auto split: if_splits)
  obtain n where n: "inode U g = Some n"
    using D by auto
  from update_ref_rep [OF n u g(1) sep(1), of d] obtain T' where
    T': "update_ref U g (ptr u) d = Ok T'" "root T' = root U" "relinked U T'"
      "rep (inode T') (lnode T') g u" "inode T' g = Some (set_child d (ptr u) n)"
      "\<And>j. j \<noteq> g \<Longrightarrow> j \<notin> set (nodes u) \<Longrightarrow> inode T' j = inode U j"
      "\<And>j. j \<notin> set (leaf_ids u) \<Longrightarrow> lnode T' j = lnode U j"
    by blast
  have "rep_ctxt (inode T') (lnode T') (ptr u) ?D"
  proof (rule rep_ctxt_replace [OF D])
    show "inode T' g = map_option (\<lambda>n. if d then n\<lparr>node_left := ptr u\<rparr> else n\<lparr>node_right := ptr u\<rparr>) (inode U g)"
      using T'(5) n by (simp add: set_child_def)
  next
    fix j assume "j \<in> set (nodes w) \<union> ctxt_nodes E"
    then have "j \<noteq> g" "j \<notin> set (nodes u)"
      using g sep(2) unfolding ctxt_nodes_Cons by blast+
    then show "inode T' j = inode U j"
      by (rule T'(6))
  next
    fix j assume "j \<in> set (leaf_ids w) \<union> ctxt_leaf_ids E"
    then have "j \<notin> set (leaf_ids u)"
      using sep(3) unfolding ctxt_nodes_Cons by blast
    then show "map_option shape (lnode T' j) = map_option shape (lnode U j)"
      by (simp add: T'(7))
  qed
  then have "rep (inode T') (lnode T') PARTITION_INDEX (fill ?D u)"
    unfolding rep_fill using T'(4) by simp
  moreover have "root T' = ptr (fill ?D u)"
    unfolding T'(2) root by (rule ptr_fill_Cons)
  ultimately show ?thesis
    using T'(1,3) by blast
qed

lemma graft:
  assumes T: "linked T t" "t = fill ((p, m, d, u) # D) (Lf i k)"
    and U: "internal_nodes U = internal_nodes T" "lnode U = (lnode T)(i := None)" "root U = root T"
  shows "\<exists>T'. replace_parent U p (ctxt_parent D) (ptr u) = Ok T'
    \<and> relinked U T' \<and> root T' = ptr (fill D u)
    \<and> rep (inode T') (lnode T') PARTITION_INDEX (fill D u)"
proof -
  define n where "n = (if d then Nd p m (Lf i k) u else Nd p m u (Lf i k))"
  have t: "t = fill D n" and n: "ptr n = p"
    using T(2) by (simp_all add: n_def)
  note dist = linked_nodes_distinct [OF T(1), unfolded t] linked_ids_distinct [OF T(1), unfolded t]
  have fresh: "i \<notin> set (leaf_ids u)" "i \<notin> ctxt_leaf_ids D"
    using dist(2) unfolding leafs_fill n_def by (auto split: if_splits)
  have dist_u: "distinct (nodes (fill D u))" "distinct (leaf_ids (fill D u))"
    using dist unfolding leafs_fill nodes_fill n_def by (auto split: if_splits)
  have "rep_ctxt (inode T) (lnode T) p D" "rep (inode T) (lnode T) p u"
    using linked_rep [OF T(1)] unfolding t rep_fill by (simp_all add: n_def split: if_splits)
  moreover have "rep_ctxt (inode U) (lnode U) p D \<longleftrightarrow> rep_ctxt (inode T) (lnode T) p D"
    by (rule rep_ctxt_cong) (use U fresh(2) in auto)
  moreover have "rep (inode U) (lnode U) p u \<longleftrightarrow> rep (inode T) (lnode T) p u"
    by (rule rep_cong) (use U fresh(1) in auto)
  ultimately have rep: "rep_ctxt (inode U) (lnode U) p D" "rep (inode U) (lnode U) p u"
    by blast+
  show ?thesis
  proof (cases D)
    case Nil
    from promote_root_rep [OF rep(2) fill_distinct(1) [OF dist_u]] Nil show ?thesis
      by (simp add: replace_parent_def)
  next
    case (Cons f E)
    obtain g m' d' w where D: "D = (g, m', d', w) # E"
      by (cases f) (simp add: Cons)
    have "is_left_child T g (ptr n) = d'"
      by (rule is_left_child_rep [OF linked_rep [OF T(1), unfolded t D] dist [unfolded D]])
    then have "is_left_child U g p = d'"
      by (simp add: n is_left_child_def U(1))
    moreover have "root U = ptr (fill D n)"
      using linked_root [OF T(1)] by (simp add: U(3) t)
    ultimately show ?thesis
      using graft_below [OF rep(1) [unfolded D] rep(2) _ dist_u [unfolded D], of n] rep(1)
      by (auto simp: D replace_parent_def)
  qed
qed

subsection \<open>Removal\<close>

lemma unlink_rep:
  assumes T: "linked T t" "t = fill ((p, m, d, u) # D) (Lf i k)"
    and U: "internal_nodes U = internal_nodes T" "lnode U = (lnode T)(i := None)" "root U = root T"
  shows "\<exists>T'. unlink_leaf U i p = Ok T' \<and> linked T' (fill D u)
    \<and> (bt_ok (internal_nodes U) \<longrightarrow> bt_ok (internal_nodes T')) \<and> (bt_ok (leaves U) \<longrightarrow> bt_ok (leaves T'))
    \<and> (\<forall>j. map_option content (lnode T' j) = map_option content (lnode U j))
    \<and> max_leaf_index T' = max_leaf_index U \<and> min_leaf_index T' = min_leaf_index U
    \<and> next_internal_node_index T' = next_internal_node_index U
    \<and> next_leaf_node_index T' = next_leaf_node_index U"
proof -
  let ?n = "if d then Nd p m (Lf i k) u else Nd p m u (Lf i k)"
  note dist = linked_nodes_distinct [OF T(1)] linked_ids_distinct [OF T(1)]
  obtain T1 where T1: "replace_parent U p (ctxt_parent D) (ptr u) = Ok T1"
    "relinked U T1" "root T1 = ptr (fill D u)" "rep (inode T1) (lnode T1) PARTITION_INDEX (fill D u)"
    using graft [OF T U] by (elim exE conjE) (rule that)
  let ?T' = "T1\<lparr>internal_nodes := bt_remove p (internal_nodes T1)\<rparr>"
  have parent: "inode U p = Some \<lparr>node_mask = m, node_parent = ctxt_parent D,
      node_left = (if d then MAX_INDEX - i else ptr u), node_right = (if d then ptr u else MAX_INDEX - i)\<rparr>"
    using linked_rep [OF T(1), unfolded T(2) rep_fill] by (simp add: U(1))
  have "is_left_child U p (MAX_INDEX - i) = d"
    using is_left_child_rep [OF linked_rep [OF T(1), unfolded T(2)] dist [unfolded T(2)]]
    by (simp add: is_left_child_def U(1))
  then have "unlink_leaf U i p = Ok ?T'"
    using T1(1) by (simp add: unlink_leaf_def parent)
  moreover have "linked ?T' (fill D u)"
  proof -
    have p: "p \<notin> set (nodes (fill D u))" "set (nodes t) = insert p (set (nodes (fill D u)))"
      and i: "i \<notin> set (leaf_ids (fill D u))" "set (leaf_ids t) = insert i (set (leaf_ids (fill D u)))"
      and dist': "distinct (nodes (fill D u))" "distinct (leaf_ids (fill D u))"
      using dist unfolding T(2) nodes_fill leafs_fill by (auto split: if_splits)
    have "rep (inode ?T') (lnode ?T') PARTITION_INDEX (fill D u)"
      by (rule rep_cong [THEN iffD2, OF _ _ T1(4)]) (use p(1) in auto)
    moreover have "dom (inode ?T') = set (nodes (fill D u))"
      using T1(2) linked_dom_nodes [OF T(1)] p by (auto simp: relinked_def U(1))
    moreover have "dom (lnode T1) = dom (lnode U)"
      using T1(2) unfolding relinked_def dom_def by (metis option.map_disc_iff)
    then have "dom (lnode ?T') = set (leaf_ids (fill D u))"
      using linked_dom_leaves [OF T(1)] i by (auto simp: U(2))
    moreover have "crit (fill D ?n)"
      using linked_crit [OF T(1)] by (simp add: T(2))
    then have "crit (fill D u)"
      using crit_fill_sub [OF \<open>crit (fill D ?n)\<close>]
      by (elim crit_fill_mono) (auto split: if_splits)
    ultimately show ?thesis
      unfolding linked_def using T1(3) dist' by simp
  qed
  ultimately show ?thesis
    using T1(2) by (intro exI [of _ ?T']) (simp add: relinked_def)
qed

lemma dom_empty_bt: "dom (bt_get m) = {} \<Longrightarrow> m = []"
  by (cases m) auto

lemma remove_last:
  assumes "represents T (Lf i k)" "lnode T i = Some lf"
  shows "remove_leaf_by_index T i = Ok (leaf_value lf, critbit_new)"
proof -
  note T = represents_linked [OF assms(1)] represents_min [OF assms(1)] represents_max [OF assms(1)]
  have k: "leaf_key lf = k"
    using linked_leaf_iff [OF T(1), of i k] assms(2) by simp
  have "internal_nodes T = []" "bt_remove i (leaves T) = []"
    using linked_dom_nodes [OF T(1)] linked_dom_leaves [OF T(1)]
    by (simp_all add: dom_empty_bt [of "internal_nodes T"] dom_empty_bt [of "bt_remove i (leaves T)"])
  moreover have "shrink_min T i k = Ok (True, T)" "shrink_max T i k = Ok (True, T)"
    using next_leaf_rep [OF T(1), of "[]" i k "[]"] previous_leaf_rep [OF T(1), of "[]" i k "[]"] T(2,3)
    by (simp_all add: shrink_min_def shrink_max_def)
  ultimately show ?thesis
    using assms(2) k by (simp add: remove_leaf_by_index_def reset_def critbit_new_def)
qed

lemma remove_rep:
  assumes "represents T t" "bt_ok (internal_nodes T)" "bt_ok (leaves T)" "lnode T i = Some lf"
    and "t = fill ((p, m, d, u) # D) (Lf i k)"
  shows "\<exists>T'. remove_leaf_by_index T i = Ok (leaf_value lf, T') \<and> represents T' (fill D u)
    \<and> bt_ok (internal_nodes T') \<and> bt_ok (leaves T')
    \<and> (\<forall>j. map_option content (lnode T' j) = (if j = i then None else map_option content (lnode T j)))"
proof -
  let ?xs = "left_leafs ((p, m, d, u) # D)" and ?ys = "right_leafs ((p, m, d, u) # D)"
  note T = represents_linked [OF assms(1)] represents_min [OF assms(1)] represents_max [OF assms(1)]
  have split: "leafs t = ?xs @ (i, k) # ?ys" and new: "?xs @ ?ys = leafs (fill D u)"
    unfolding assms(5) leafs_fill by simp_all
  then have ne: "?xs @ ?ys \<noteq> []"
    by (metis leafs_neq_Nil)
  have lf: "leaf_key lf = k" "leaf_parent lf = p"
    using linked_rep [OF T(1)] assms(4) unfolding assms(5) rep_fill by (simp_all add: shape_def)
  let ?T1 = "T\<lparr>min_leaf_index := fst (hd (?xs @ ?ys))\<rparr>"
  let ?T2 = "?T1\<lparr>max_leaf_index := fst (last (?xs @ ?ys))\<rparr>"
  let ?U = "?T2\<lparr>leaves := bt_remove i (leaves T)\<rparr>"
  have "linked ?T2 t"
    using T(1) by simp
  from unlink_rep [OF this assms(5), of ?U] obtain T' where
    T': "unlink_leaf ?U i p = Ok T'" "linked T' (fill D u)" "bt_ok (internal_nodes T')" "bt_ok (leaves T')"
      "\<And>j. map_option content (lnode T' j) = map_option content (lnode ?U j)"
      "max_leaf_index T' = fst (last (?xs @ ?ys))" "min_leaf_index T' = fst (hd (?xs @ ?ys))"
      "next_internal_node_index T' = next_internal_node_index T" "next_leaf_node_index T' = next_leaf_node_index T"
    using assms(2,3) by auto
  have "shrink_min T i k = Ok (False, ?T1)"
    by (rule shrink_min_rep [OF T(1,2) split ne])
  moreover have "shrink_max ?T1 i k = Ok (False, ?T2)"
    using T(1,3) by (intro shrink_max_rep [OF _ _ split ne]) simp_all
  ultimately have "remove_leaf_by_index T i = Ok (leaf_value lf, T')"
    using assms(4) lf T'(1) by (simp add: remove_leaf_by_index_def)
  moreover have "set (nodes (fill D u)) \<subseteq> set (nodes t)" "set (leaf_ids (fill D u)) \<subseteq> set (leaf_ids t)"
    unfolding assms(5) nodes_fill leafs_fill by auto
  then have "represents T' (fill D u)"
    unfolding represents_def T'(6-9) new using T'(2) represents_nodes_less [OF assms(1)]
      represents_ids_less [OF assms(1)] represents_counters [OF assms(1)] represents_capacity [OF assms(1)]
    by (intro conjI ballI) (simp_all add: hd_map last_map subset_iff del: set_map)
  ultimately show ?thesis
    using T'(3-5) by auto
qed

lemma tree_map_remove:
  assumes "linked T t" "bt_ok (leaves T)" "linked T' t'" "bt_ok (leaves T')" "lnode T i = Some lf"
    and "\<And>j. map_option content (lnode T' j) = (if j = i then None else map_option content (lnode T j))"
  shows "tree_map T' = (tree_map T)(leaf_key lf := None)"
proof (intro ext map_eqI)
  fix k w
  have i: "(i, leaf_key lf) \<in> set (leafs t)"
    using linked_leaf_iff [OF assms(1)] assms(5) by blast
  have "j = i \<longleftrightarrow> k = leaf_key lf" if c: "map_option content (lnode T j) = Some (k, w)" for j
  proof -
    obtain lf' where lf': "lnode T j = Some lf'" "leaf_key lf' = k"
      using c by (cases "lnode T j") (simp_all add: content_def)
    then have "(j, k) \<in> set (leafs t)"
      using linked_leaf_iff [OF assms(1), of j k] by simp
    then show ?thesis
      using linked_key_index [OF assms(1) i, of j] lf' assms(5) by fastforce
  qed
  then have "tree_map T' k = Some w \<longleftrightarrow> k \<noteq> leaf_key lf \<and> tree_map T k = Some w"
    unfolding tree_map_content [OF assms(1,2)] tree_map_content [OF assms(3,4)] assms(6) by auto
  then show "tree_map T' k = Some w \<longleftrightarrow> ((tree_map T)(leaf_key lf := None)) k = Some w"
    by simp
qed

text \<open>
  Removal refines the deletion from a map: on a well-formed tree the removal of an index that
  is not in use fails with \<open>NotFound\<close>, and the removal of a leaf returns its value and a
  well-formed tree that stands for the map without the key of the leaf.
\<close>

lemma remove_wf:
  assumes "wf_tree T"
  shows "case bt_get (leaves T) i of
      None \<Rightarrow> remove_leaf_by_index T i = Err NotFound
    | Some leaf \<Rightarrow> \<exists>T'. remove_leaf_by_index T i = Ok (leaf_value leaf, T') \<and> wf_tree T'
        \<and> tree_map T' = (tree_map T)(leaf_key leaf := None)"
proof (cases "lnode T i")
  case None
  then show ?thesis
    by (simp add: remove_leaf_by_index_def)
next
  case (Some lf)
  with assms obtain t where t: "linked T t" "bt_ok (internal_nodes T)" "bt_ok (leaves T)" "represents T t"
    by (cases rule: wf_cases) (auto simp: critbit_new_def)
  obtain C where C: "t = fill C (Lf i (leaf_key lf))"
    using Some linked_leaf_iff [OF t(1)] fill_leaf by metis
  show ?thesis
  proof (cases C)
    case Nil
    then have "represents T (Lf i (leaf_key lf))"
      using t(4) C by simp
    moreover from this have "dom (tree_map T) = {leaf_key lf}"
      using tree_map_dom [OF represents_linked t(3)] by fastforce
    then have "(tree_map T)(leaf_key lf := None) = Map.empty"
      by (auto simp: fun_eq_iff)
    ultimately show ?thesis
      using remove_last [of T i "leaf_key lf" lf] Some by (simp add: wf_new)
  next
    case (Cons f D)
    obtain p m d u where "t = fill ((p, m, d, u) # D) (Lf i (leaf_key lf))"
      using C Cons by (cases f) auto
    from remove_rep [OF t(4,2,3) Some this] obtain T' where
      T': "remove_leaf_by_index T i = Ok (leaf_value lf, T')" "represents T' (fill D u)"
        "bt_ok (internal_nodes T')" "bt_ok (leaves T')"
        "\<And>j. map_option content (lnode T' j) = (if j = i then None else map_option content (lnode T j))"
      by auto
    then have "tree_map T' = (tree_map T)(leaf_key lf := None)"
      by (intro tree_map_remove [OF t(1,3) represents_linked [OF T'(2)] T'(4) Some])
    with T' Some show ?thesis
      by (auto simp: wf_tree_def)
  qed
qed

end
