(* ===== verification/PriceMap.thy ===== *)
theory PriceMap
  imports CritbitRemove
begin

text \<open>
  The crit-bit tree as an ordered map. The locale \<open>price_map\<close> is what the order book relies on:
  a lookup of a key, access to the value found, insertion and removal, with their laws over an
  abstract finite map. The tree of \<open>critbit.rs\<close> interprets it. The reachable trees are those
  that insertions, removals and updates of values in place build from the empty tree.
\<close>

text \<open>
  Updating a value through \<open>leaves.get_mut\<close>, as \<open>place_order\<close>, \<open>fill_order\<close> and
  \<open>cancel_order\<close> of the order book do.
\<close>

definition leaf_value_at :: "('k, 'v) CritbitTree \<Rightarrow> 'k \<Rightarrow> 'v option" where
  "leaf_value_at t leaf_index = map_option leaf_value (bt_get (leaves t) leaf_index)"

definition set_leaf_value :: "('k::len, 'v) critbit \<Rightarrow> 'k word \<Rightarrow> 'v \<Rightarrow> ('k, 'v) critbit" where
  "set_leaf_value t leaf_index val =
     (case bt_get (leaves t) leaf_index of
        None \<Rightarrow> t
      | Some leaf \<Rightarrow> t\<lparr>leaves := bt_insert leaf_index (leaf\<lparr>leaf_value := val\<rparr>) (leaves t)\<rparr>)"

inductive reachable :: "('k::len, 'v) critbit \<Rightarrow> bool" where
  reachable_new: "reachable critbit_new"
| reachable_insert: "reachable T \<Longrightarrow> critbit_insert T key v = Ok T' \<Longrightarrow> reachable T'"
| reachable_remove: "reachable T \<Longrightarrow> remove_leaf_by_index T i = Ok (v, T') \<Longrightarrow> reachable T'"
| reachable_update: "reachable T \<Longrightarrow> reachable (set_leaf_value T i v)"

text \<open>A tree built by a list of insertions, for the concrete instances below.\<close>

fun build :: "('k::len word \<times> 'v) list \<Rightarrow> ('k, 'v) critbit" where
  "build [] = critbit_new"
| "build ((k, v) # es) =
     (case critbit_insert (build es) k v of Ok T \<Rightarrow> T | _ \<Rightarrow> build es)"

definition sample_tree :: "(8, nat) critbit" where
  "sample_tree = build [(9, 90), (3, 30), (5, 50)]"

locale price_map =
  fixes new :: 't
    and ins :: "'t \<Rightarrow> 'k \<Rightarrow> 'v \<Rightarrow> ('e, 't) result"
    and rem :: "'t \<Rightarrow> 'i \<Rightarrow> ('e, 'v \<times> 't) result"
    and find :: "'t \<Rightarrow> 'k \<Rightarrow> ('e, 'i option) result"
    and get :: "'t \<Rightarrow> 'i \<Rightarrow> 'v option"
    and set_at :: "'t \<Rightarrow> 'i \<Rightarrow> 'v \<Rightarrow> 't"
    and ok :: "'t \<Rightarrow> bool"
    and full :: "'t \<Rightarrow> bool"
    and lookup :: "'t \<Rightarrow> 'k \<Rightarrow> 'v option"
  assumes ok_new: "ok new" and lookup_new: "lookup new k = None"
    and find_ok: "ok t \<Longrightarrow> \<exists>r. find t k = Ok r \<and> lookup t k = Option.bind r (get t) \<and> (r = None \<longleftrightarrow> lookup t k = None)"
    and ins_ok: "ok t \<Longrightarrow> lookup t k = None \<Longrightarrow> \<not> full t \<Longrightarrow>
      \<exists>t'. ins t k v = Ok t' \<and> ok t' \<and> lookup t' = (lookup t)(k \<mapsto> v)"
    and rem_ok: "ok t \<Longrightarrow> find t k = Ok (Some i) \<Longrightarrow>
      \<exists>t'. rem t i = Ok (the (lookup t k), t') \<and> ok t' \<and> lookup t' = (lookup t)(k := None)"
    and set_ok: "ok t \<Longrightarrow> find t k = Ok (Some i) \<Longrightarrow>
      ok (set_at t i v) \<and> lookup (set_at t i v) = (lookup t)(k \<mapsto> v) \<and> find (set_at t i v) = find t
      \<and> full (set_at t i v) = full t"
begin

lemma find_cases:
  assumes "ok t"
  obtains "find t k = Ok None" "lookup t k = None"
  | i v where "find t k = Ok (Some i)" "get t i = Some v" "lookup t k = Some v"
proof -
  from find_ok [OF assms, of k] obtain r where r: "find t k = Ok r" "lookup t k = Option.bind r (get t)"
      "r = None \<longleftrightarrow> lookup t k = None"
    by (elim exE conjE) (rule that)
  show thesis
  proof (cases r)
    case None
    with r(1,3) show thesis
      by (intro that(1)) simp_all
  next
    case (Some i)
    with r(3) obtain v where v: "lookup t k = Some v"
      by blast
    moreover have "get t i = Some v"
      using r(2) v Some by simp
    ultimately show thesis
      using r(1) Some by (intro that(2)) simp_all
  qed
qed

text \<open>Overwriting the value found and then removing it is a removal.\<close>

lemma set_then_rem:
  assumes "ok t" "find t k = Ok (Some i)"
  shows "\<exists>t'. rem (set_at t i v) i = Ok (v, t') \<and> ok t' \<and> lookup t' = (lookup t)(k := None)"
proof -
  note s = set_ok [OF assms, of v]
  have "find (set_at t i v) k = Ok (Some i)"
    using s assms(2) by simp
  from rem_ok [OF conjunct1 [OF s] this] obtain t' where
    "rem (set_at t i v) i = Ok (the (lookup (set_at t i v) k), t')" "ok t'"
    "lookup t' = (lookup (set_at t i v))(k := None)"
    by blast
  moreover have "lookup (set_at t i v) = (lookup t)(k \<mapsto> v)"
    using s by blast
  ultimately show ?thesis
    by (intro exI [of _ t']) simp
qed

end

subsection \<open>Updating values in place\<close>

lemma set_leaf_value_simps [simp]:
  "internal_nodes (set_leaf_value T i v) = internal_nodes T"
  "root (set_leaf_value T i v) = root T"
  "min_leaf_index (set_leaf_value T i v) = min_leaf_index T"
  "max_leaf_index (set_leaf_value T i v) = max_leaf_index T"
  "next_internal_node_index (set_leaf_value T i v) = next_internal_node_index T"
  "next_leaf_node_index (set_leaf_value T i v) = next_leaf_node_index T"
  by (simp_all add: set_leaf_value_def split: option.splits)

lemma lnode_set_leaf_value:
  "lnode (set_leaf_value T i v) j =
    (if j = i then map_option (\<lambda>lf. lf\<lparr>leaf_value := v\<rparr>) (lnode T i) else lnode T j)"
  by (simp add: set_leaf_value_def split: option.splits)

lemma bt_ok_set_leaf_value: "bt_ok (leaves T) \<Longrightarrow> bt_ok (leaves (set_leaf_value T i v))"
  by (simp add: set_leaf_value_def split: option.splits)

lemma linked_set_leaf_value:
  assumes "linked T t"
  shows "linked (set_leaf_value T i v) t"
proof -
  let ?T = "set_leaf_value T i v"
  have "rep (inode ?T) (lnode ?T) PARTITION_INDEX t"
  proof (rule rep_cong [THEN iffD2, OF _ _ linked_rep [OF assms]])
    show "map_option shape (lnode ?T j) = map_option shape (lnode T j)" for j
      by (cases "lnode T j") (auto simp: lnode_set_leaf_value shape_def)
  qed simp
  moreover have "lnode ?T j = None \<longleftrightarrow> lnode T j = None" for j
    by (simp add: lnode_set_leaf_value)
  then have "dom (lnode ?T) = dom (lnode T)"
    unfolding dom_def by (intro Collect_cong) simp
  ultimately show ?thesis
    unfolding linked_def using linkedD [OF assms] by (intro conjI) simp_all
qed

lemma represents_set_leaf_value: "represents T t \<Longrightarrow> represents (set_leaf_value T i v) t"
  unfolding represents_def set_leaf_value_simps by (blast intro: linked_set_leaf_value)

lemma find_leaf_set_leaf_value:
  assumes "linked T t"
  shows "find_leaf (set_leaf_value T i v) = find_leaf T"
  by (intro ext) (simp only: find_leaf_rep [OF assms] find_leaf_rep [OF linked_set_leaf_value [OF assms]])

lemma set_leaf_value_new [simp]: "set_leaf_value critbit_new i v = critbit_new"
  by (simp add: set_leaf_value_def critbit_new_def)

lemma set_leaf_value_wf: "wf_tree T \<Longrightarrow> wf_tree (set_leaf_value T i v)"
  by (cases T rule: wf_cases)
    (auto simp: wf_new wf_tree_def bt_ok_set_leaf_value intro: represents_set_leaf_value)

lemma tree_map_set_leaf_value:
  assumes "linked T t" "bt_ok (leaves T)" "find_leaf T k = Ok (Some i)"
  shows "tree_map (set_leaf_value T i v) = (tree_map T)(k \<mapsto> v)"
proof (intro ext map_eqI)
  fix x w
  have k: "k \<in> set (keys t)" "i = fst (closest k t)"
    using assms(3) by (simp_all add: find_leaf_rep [OF assms(1)] split: if_splits)
  then have i: "(i, k) \<in> set (leafs t)"
    using closest_leaf [of k t] closest_key [OF linked_crit [OF assms(1)] k(1)] by (metis prod.collapse)
  obtain lf where lf: "lnode T i = Some lf" "leaf_key lf = k"
    using i linked_leaf_iff [OF assms(1)] by blast
  have other: "lnode T j = Some lf' \<Longrightarrow> leaf_key lf' = k \<Longrightarrow> j = i" for j lf'
    using linked_key_index [OF assms(1) _ i] linked_leaf_iff [OF assms(1)] by blast
  have lnode': "lnode (set_leaf_value T i v) = (lnode T)(i \<mapsto> lf\<lparr>leaf_value := v\<rparr>)"
    by (intro ext) (simp add: lnode_set_leaf_value lf)
  have "(\<exists>j lf'. ((lnode T)(i \<mapsto> lf\<lparr>leaf_value := v\<rparr>)) j = Some lf' \<and> leaf_key lf' = x \<and> leaf_value lf' = w)
    \<longleftrightarrow> (if x = k then w = v else (\<exists>j lf'. lnode T j = Some lf' \<and> leaf_key lf' = x \<and> leaf_value lf' = w))"
  proof (cases "x = k")
    case True
    then show ?thesis
      using lf(2) other by (auto simp: fun_upd_def split: if_splits)
  next
    case False
    then have "j \<noteq> i" if "lnode T j = Some lf'" "leaf_key lf' = x" for j lf'
      using that lf by auto
    then show ?thesis
      using False lf(2) by (auto simp: fun_upd_def split: if_splits)
  qed
  then have "tree_map (set_leaf_value T i v) x = Some w \<longleftrightarrow>
      (if x = k then w = v else tree_map T x = Some w)"
    unfolding tree_map_iff [OF linked_set_leaf_value [OF assms(1)] bt_ok_set_leaf_value [OF assms(2)]]
      tree_map_iff [OF assms(1,2)] lnode' .
  then show "tree_map (set_leaf_value T i v) x = Some w \<longleftrightarrow> ((tree_map T)(k \<mapsto> v)) x = Some w"
    by auto
qed

subsection \<open>The tree is an ordered map\<close>

lemma wf_find:
  assumes "wf_tree T"
  shows "\<exists>r. find_leaf T k = Ok r \<and> tree_map T k = Option.bind r (leaf_value_at T)
    \<and> (r = None \<longleftrightarrow> tree_map T k = None)"
  using find_leaf_wf [OF assms, of k] unfolding leaf_value_at_def by (auto simp: domIff)

lemma wf_insert:
  assumes "wf_tree T" "tree_map T k = None" "next_leaf_node_index T \<noteq> CAPACITY"
  shows "\<exists>T'. critbit_insert T k v = Ok T' \<and> wf_tree T' \<and> tree_map T' = (tree_map T)(k \<mapsto> v)"
  using insert_wf [OF assms(1), of k v] assms(2,3) by (auto simp: domIff)

lemma found_leaf:
  assumes "wf_tree T" "find_leaf T k = Ok (Some i)"
  shows "\<exists>lf. bt_get (leaves T) i = Some lf \<and> leaf_key lf = k \<and> tree_map T k = Some (leaf_value lf)"
  using assms(1)
proof (cases rule: wf_cases)
  case (tree t)
  then have k: "k \<in> set (keys t)" "i = fst (closest k t)"
    using assms(2) by (simp_all add: find_leaf_rep split: if_splits)
  then have "(i, k) \<in> set (leafs t)"
    using closest_leaf [of k t] closest_key [OF linked_crit [OF tree(1)] k(1)] by (metis prod.collapse)
  then show ?thesis
    using linked_leaf_iff [OF tree(1), of i k] tree_map_iff [OF tree(1,3)] by blast
qed (use assms(2) in simp)

lemma wf_remove:
  assumes "wf_tree T" "find_leaf T k = Ok (Some i)"
  shows "\<exists>T'. remove_leaf_by_index T i = Ok (the (tree_map T k), T') \<and> wf_tree T'
    \<and> tree_map T' = (tree_map T)(k := None)"
  using found_leaf [OF assms] remove_wf [OF assms(1), of i] by auto

lemma wf_update:
  assumes "wf_tree T" "find_leaf T k = Ok (Some i)"
  shows "wf_tree (set_leaf_value T i v) \<and> tree_map (set_leaf_value T i v) = (tree_map T)(k \<mapsto> v)
    \<and> find_leaf (set_leaf_value T i v) = find_leaf T
    \<and> (next_leaf_node_index (set_leaf_value T i v) = CAPACITY \<longleftrightarrow> next_leaf_node_index T = CAPACITY)"
  using assms(1)
proof (cases rule: wf_cases)
  case (tree t)
  then show ?thesis
    using assms tree_map_set_leaf_value [OF tree(1,3)] find_leaf_set_leaf_value [OF tree(1)]
    by (simp add: set_leaf_value_wf)
qed (use assms(2) in simp)

interpretation critbit: price_map critbit_new critbit_insert remove_leaf_by_index find_leaf
  leaf_value_at set_leaf_value wf_tree "\<lambda>T. next_leaf_node_index T = CAPACITY" tree_map
  using wf_new wf_find wf_insert wf_remove wf_update by unfold_locales (assumption | simp)+

subsection \<open>Reachable trees\<close>

lemma reachable_wf_tree: "reachable T \<Longrightarrow> wf_tree T"
proof (induction rule: reachable.induct)
  case (reachable_insert T key v T')
  then show ?case
    using insert_wf [of T key v] by (auto split: if_splits)
next
  case (reachable_remove T i v T')
  then show ?case
    using remove_wf [of T i] by (auto split: option.splits)
qed (simp_all add: wf_new set_leaf_value_wf)

lemma reachable_build: "reachable (build es)"
  by (induction es rule: build.induct)
    (auto intro: reachable_new reachable_insert split: result.splits)

lemma wf_sample_tree: "wf_tree sample_tree"
  unfolding sample_tree_def by (intro reachable_wf_tree reachable_build)

text \<open>
  C15. The invariant of the data structure: every tree that insertions, removals and updates in place
  build from the empty tree is well-formed. Its references form a finite binary tree without
  cycles, its masks and keys obey the crit-bit discipline, and cache and counters are right.
\<close>

theorem reachable_trees_are_well_formed:
  assumes "reachable T"
  shows "wf_tree T"
  using assms by (rule reachable_wf_tree)

theorem reachable_trees_are_well_formed_witness:
  "reachable sample_tree \<and> wf_tree sample_tree \<and> critbit_size sample_tree = 3"
proof -
  have "reachable sample_tree"
    unfolding sample_tree_def by (rule reachable_build)
  moreover have "critbit_size sample_tree = 3"
    by code_simp
  ultimately show ?thesis
    using reachable_trees_are_well_formed [of sample_tree] by blast
qed

text \<open>
  C4. Insertion refines the update of a map, on every branch. A full tree is rejected with
  \<open>ExceedCapacity\<close>, a key that is present with \<open>AlreadyExist\<close>; otherwise the call returns
  a tree that is again well-formed and stands for the map updated at the key.
\<close>

theorem critbit_insert_refines_update:
  assumes "wf_tree T"
  shows "if next_leaf_node_index T = CAPACITY then critbit_insert T key v = Err ExceedCapacity
    else if key \<in> dom (tree_map T) then critbit_insert T key v = Err AlreadyExist
    else \<exists>T'. critbit_insert T key v = Ok T' \<and> wf_tree T' \<and> tree_map T' = (tree_map T)(key \<mapsto> v)"
  using assms by (rule insert_wf)

theorem critbit_insert_refines_update_witness:
  "wf_tree sample_tree \<and> critbit_insert sample_tree 9 0 = Err AlreadyExist \<and>
   (\<exists>T'. critbit_insert sample_tree 6 60 = Ok T' \<and> wf_tree T' \<and> tree_map T' = (tree_map sample_tree)(6 \<mapsto> 60))"
proof -
  have "next_leaf_node_index sample_tree \<noteq> CAPACITY" "tree_map sample_tree 9 \<noteq> None" "tree_map sample_tree 6 = None"
    by code_simp+
  then show ?thesis
    using critbit_insert_refines_update [OF wf_sample_tree, of 9 0]
      critbit_insert_refines_update [OF wf_sample_tree, of 6 60] wf_sample_tree
    by (simp add: domIff)
qed

text \<open>
  C5. Removal refines the deletion from a map: on a well-formed tree the removal of an index that
  is not in use fails with \<open>NotFound\<close>, and the removal of a leaf returns its value and a
  well-formed tree that stands for the map without the key of the leaf.
\<close>

theorem remove_leaf_refines_delete:
  assumes "wf_tree T"
  shows "case bt_get (leaves T) i of
      None \<Rightarrow> remove_leaf_by_index T i = Err NotFound
    | Some leaf \<Rightarrow> \<exists>T'. remove_leaf_by_index T i = Ok (leaf_value leaf, T') \<and> wf_tree T'
        \<and> tree_map T' = (tree_map T)(leaf_key leaf := None)"
  using assms by (rule remove_wf)

theorem remove_leaf_refines_delete_witness:
  "wf_tree sample_tree \<and> remove_leaf_by_index sample_tree 7 = Err NotFound \<and>
   (\<exists>T'. remove_leaf_by_index sample_tree 1 = Ok (30, T') \<and> wf_tree T' \<and> tree_map T' = (tree_map sample_tree)(3 := None))"
proof -
  have "bt_get (leaves sample_tree) 7 = None"
      "map_option leaf_key (bt_get (leaves sample_tree) 1) = Some 3"
      "map_option leaf_value (bt_get (leaves sample_tree) 1) = Some 30"
    by code_simp+
  then show ?thesis
    using remove_leaf_refines_delete [OF wf_sample_tree, of 7]
      remove_leaf_refines_delete [OF wf_sample_tree, of 1] wf_sample_tree
    by auto
qed

text \<open>
  Lookup: on a well-formed tree the descent of \<open>find_leaf\<close> ends without an error, and it
  returns the index of the leaf that holds the key, or nothing when no leaf holds it.
\<close>

theorem find_leaf_is_lookup:
  assumes "wf_tree T"
  shows "\<exists>r. find_leaf T key = Ok r \<and>
    tree_map T key = Option.bind r (\<lambda>i. map_option leaf_value (bt_get (leaves T) i)) \<and>
    (r = None \<longleftrightarrow> key \<notin> dom (tree_map T))"
  using assms by (rule find_leaf_wf)

theorem find_leaf_is_lookup_witness:
  "wf_tree sample_tree \<and> find_leaf sample_tree 4 = Ok None \<and> 4 \<notin> dom (tree_map sample_tree)
   \<and> tree_map sample_tree 3 = Some 30"
proof -
  have "find_leaf sample_tree 4 = Ok None" "tree_map sample_tree 3 = Some 30"
    by code_simp+
  then show ?thesis
    using find_leaf_is_lookup [OF wf_sample_tree, of 4] wf_sample_tree by simp
qed

text \<open>
  C34. The cached extrema are right: on a well-formed tree \<open>min_leaf\<close> and \<open>max_leaf\<close> return
  nothing exactly when the tree holds no key, and otherwise the least and the greatest key with
  the indices of their leaves.
\<close>

theorem extrema_are_min_max:
  assumes "wf_tree T"
  shows "if tree_map T = Map.empty then min_leaf T = Ok None \<and> max_leaf T = Ok None
    else \<exists>i j. min_leaf T = Ok (Some (Min (dom (tree_map T)), i))
      \<and> find_leaf T (Min (dom (tree_map T))) = Ok (Some i)
      \<and> max_leaf T = Ok (Some (Max (dom (tree_map T)), j))
      \<and> find_leaf T (Max (dom (tree_map T))) = Ok (Some j)"
  using assms by (rule extrema_wf)

theorem extrema_are_min_max_witness:
  "wf_tree sample_tree \<and> Min (dom (tree_map sample_tree)) = 3 \<and> Max (dom (tree_map sample_tree)) = 9"
proof -
  have "tree_map sample_tree 3 \<noteq> None" "min_leaf sample_tree = Ok (Some (3, 1))"
      "max_leaf sample_tree = Ok (Some (9, 2))"
    by code_simp+
  moreover from this have "tree_map sample_tree \<noteq> Map.empty"
    by auto
  ultimately show ?thesis
    using extrema_are_min_max [OF wf_sample_tree] wf_sample_tree by auto
qed

text \<open>
  C35. Ordered traversal: for a key of a well-formed tree, \<open>next_leaf\<close> returns the least
  greater key and \<open>previous_leaf\<close> the greatest smaller key, each with the index of its leaf,
  and nothing when there is none; for a key that is absent both fail with \<open>NotFound\<close>.
\<close>

theorem neighbours_are_successor_and_predecessor:
  assumes "wf_tree T"
  shows "next_leaf T k =
      (if k \<notin> dom (tree_map T) then Err NotFound
       else if keys_above T k = {} then Ok None
       else and_then (find_leaf T (Min (keys_above T k))) (\<lambda>i.
              Ok (Some (Min (keys_above T k), the i))))
    \<and> previous_leaf T k =
      (if k \<notin> dom (tree_map T) then Err NotFound
       else if keys_below T k = {} then Ok None
       else and_then (find_leaf T (Max (keys_below T k))) (\<lambda>i.
              Ok (Some (Max (keys_below T k), the i))))"
  using assms by (rule neighbours_wf)

theorem neighbours_are_successor_and_predecessor_witness:
  "wf_tree sample_tree \<and> next_leaf sample_tree 4 = Err NotFound \<and> previous_leaf sample_tree 4 = Err NotFound
   \<and> keys_below sample_tree 3 = {}"
proof -
  have "tree_map sample_tree 4 = None" "tree_map sample_tree 3 \<noteq> None" "previous_leaf sample_tree 3 = Ok None"
    by code_simp+
  then show ?thesis
    using neighbours_are_successor_and_predecessor [OF wf_sample_tree, of 4]
      neighbours_are_successor_and_predecessor [OF wf_sample_tree, of 3] wf_sample_tree
    by (auto simp: domIff and_then_eq_Ok split: if_splits)
qed

end
