(* ===== verification/OrderIds.thy ===== *)
theory OrderIds
  imports Prelude
begin

text \<open>
  Order identifiers (\<open>pallets/hybrid-orderbook/src/types.rs\<close>, \<open>OrderId\<close> and the trait
  \<open>OrderbookOrderId\<close>). The 64-bit space is split in two: ids with the top bit clear are
  bids, ids with the top bit set are asks. The trait is the locale
  \<open>orderbook_order_id\<close>; \<open>OrderId\<close> is its interpretation.
\<close>

datatype OrderId = OrderId (order_id_val: "64 word")

instantiation OrderId :: linorder
begin

definition less_eq_OrderId :: "OrderId \<Rightarrow> OrderId \<Rightarrow> bool" where
  "less_eq_OrderId a b \<longleftrightarrow> order_id_val a \<le> order_id_val b"

definition less_OrderId :: "OrderId \<Rightarrow> OrderId \<Rightarrow> bool" where
  "less_OrderId a b \<longleftrightarrow> order_id_val a < order_id_val b"

instance
  by intro_classes (auto simp: less_eq_OrderId_def less_OrderId_def intro: OrderId.expand)

end

lemma OrderId_order [simp]:
  "OrderId a \<le> OrderId b \<longleftrightarrow> a \<le> b" "OrderId a < OrderId b \<longleftrightarrow> a < b"
  by (simp_all add: less_eq_OrderId_def less_OrderId_def)

subsection \<open>Operations\<close>

definition start_bid_id :: OrderId where
  "start_bid_id = OrderId 0"

definition start_ask_id :: OrderId where
  "start_ask_id = OrderId (push_bit (64 - 1) 1)"

definition max_bid_id :: OrderId where
  "max_bid_id = start_ask_id"

definition max_ask_id :: OrderId where
  "max_ask_id = OrderId (- 1)"

definition order_id_add :: "OrderId \<Rightarrow> OrderId \<Rightarrow> OrderId" where
  "order_id_add a b = OrderId (order_id_val a + order_id_val b)"

definition order_id_sub :: "OrderId \<Rightarrow> OrderId \<Rightarrow> OrderId" where
  "order_id_sub a b = OrderId (order_id_val a - order_id_val b)"

definition is_bid_id :: "OrderId \<Rightarrow> bool" where
  "is_bid_id i \<longleftrightarrow> order_id_val i AND order_id_val start_ask_id = 0"

definition increase_by_one :: "OrderId \<Rightarrow> OrderId option" where
  "increase_by_one i =
     (let max_index = (if is_bid_id i then max_bid_id else max_ask_id)
      in if i = order_id_sub max_index (OrderId 1) then None
         else Some (OrderId (order_id_val i + 1)))"

definition order_id_new :: "bool \<Rightarrow> OrderId" where
  "order_id_new is_bid = (if is_bid then start_bid_id else start_ask_id)"

definition checked_increase :: "OrderId \<Rightarrow> OrderId option" where
  "checked_increase i = increase_by_one i"

text \<open>The ids that a counter hands out, starting at \<open>i\<close>: at most \<open>n\<close> of them,
  fewer when the counter is exhausted (\<open>next_bid_order_id\<close> then returns an error).\<close>

fun issue_ids :: "('id \<Rightarrow> 'id option) \<Rightarrow> nat \<Rightarrow> 'id \<Rightarrow> 'id list" where
  "issue_ids inc 0 i = []"
| "issue_ids inc (Suc n) i = (case inc i of None \<Rightarrow> [] | Some j \<Rightarrow> i # issue_ids inc n j)"

subsection \<open>The trait and its clients\<close>

locale orderbook_order_id =
  fixes new :: "bool \<Rightarrow> 'id::linorder"
    and increase :: "'id \<Rightarrow> 'id option"
    and is_bid :: "'id \<Rightarrow> bool"
    and valid :: "'id \<Rightarrow> bool"
  assumes is_bid_new: "is_bid (new b) = b"
    and valid_new: "valid (new b)"
    and increase_valid: "valid i \<Longrightarrow> increase i = Some j \<Longrightarrow> valid j"
    and increase_side: "valid i \<Longrightarrow> increase i = Some j \<Longrightarrow> is_bid j = is_bid i"
    and increase_less: "valid i \<Longrightarrow> increase i = Some j \<Longrightarrow> i < j"
begin

lemma issued_side: "valid i \<Longrightarrow> j \<in> set (issue_ids increase n i) \<Longrightarrow> is_bid j = is_bid i"
proof (induction n arbitrary: i)
  case (Suc n)
  show ?case
  proof (cases "increase i")
    case (Some k)
    then have "valid k" "is_bid k = is_bid i"
      using Suc.prems(1) increase_valid increase_side by blast+
    then show ?thesis
      using Suc.prems(2) Suc.IH [of k] Some by auto
  qed (use Suc.prems in simp)
qed simp

lemma issued_ge: "valid i \<Longrightarrow> j \<in> set (issue_ids increase n i) \<Longrightarrow> i \<le> j"
proof (induction n arbitrary: i)
  case (Suc n)
  show ?case
  proof (cases "increase i")
    case (Some k)
    then have "valid k" "i < k"
      using Suc.prems(1) increase_valid increase_less by blast+
    then show ?thesis
      using Suc.prems(2) Suc.IH [of k] Some by auto
  qed (use Suc.prems in simp)
qed simp

lemma issued_sorted: "valid i \<Longrightarrow> sorted_wrt (<) (issue_ids increase n i)"
proof (induction n arbitrary: i)
  case (Suc n)
  show ?case
  proof (cases "increase i")
    case (Some j)
    then have "valid j" "i < j"
      using Suc.prems increase_valid increase_less by blast+
    then have "i < k" if "k \<in> set (issue_ids increase n j)" for k
      using issued_ge [OF _ that] by simp
    with Some \<open>valid j\<close> Suc.IH show ?thesis by simp
  qed simp
qed simp

lemma issued_sides_disjoint:
  "set (issue_ids increase m (new True)) \<inter> set (issue_ids increase n (new False)) = {}"
proof -
  have "is_bid k = b" if "k \<in> set (issue_ids increase j (new b))" for k j b
    using issued_side [OF valid_new that] by (simp add: is_bid_new)
  then show ?thesis
    by (metis disjoint_iff)
qed

end

subsection \<open>The implementation satisfies the trait\<close>

lemma start_ask_id_val: "order_id_val start_ask_id = 0x8000000000000000"
  by (simp add: start_ask_id_def)

lemma is_bid_id_iff: "is_bid_id i \<longleftrightarrow> order_id_val i < 0x8000000000000000"
  using msb_less [of "order_id_val i"] and_exp_eq_0_iff_not_bit [of "order_id_val i" 63]
  by (simp add: is_bid_id_def start_ask_id_val)

lemma increase_by_one_bid:
  "v < 0x8000000000000000 \<Longrightarrow> increase_by_one (OrderId v) =
     (if v = 0x7fffffffffffffff then None else Some (OrderId (v + 1)))"
  by (simp add: increase_by_one_def is_bid_id_iff order_id_sub_def max_bid_id_def start_ask_id_val)

lemma increase_by_one_ask:
  "\<not> v < 0x8000000000000000 \<Longrightarrow> increase_by_one (OrderId v) =
     (if v = 0xfffffffffffffffe then None else Some (OrderId (v + 1)))"
  by (simp add: increase_by_one_def is_bid_id_iff order_id_sub_def max_ask_id_def)

lemma unat_Suc64: "v < w \<Longrightarrow> unat (v + 1) = Suc (unat v)" for v w :: "64 word"
  using unat_lt2p [of w] by (simp add: word_less_nat_alt unat_add_no_wrap)

lemma max_ask_id_eq: "max_ask_id = OrderId 0xffffffffffffffff"
  by (simp add: max_ask_id_def)

text \<open>The id of all ones is the one value from which the increment would wrap around to a
  bid id. No counter reaches it: an ask counter stops one short of it.\<close>

definition valid_id :: "OrderId \<Rightarrow> bool" where
  "valid_id i \<longleftrightarrow> i \<noteq> max_ask_id"

lemma increase_by_one_cases:
  assumes "increase_by_one i = Some j" "valid_id i"
  shows "is_bid_id j = is_bid_id i \<and> order_id_val i < order_id_val j \<and> valid_id j"
proof (cases i)
  case (OrderId v)
  show ?thesis
  proof (cases "v < 0x8000000000000000")
    case True
    with assms OrderId have "v \<noteq> 0x7fffffffffffffff" and j: "j = OrderId (v + 1)"
      by (auto simp: increase_by_one_bid split: if_splits)
    with True have "unat v < 0x7fffffffffffffff"
      by (simp add: word_less_nat_alt word_unat_eq_iff)
    with True j OrderId show ?thesis
      by (auto simp: is_bid_id_iff word_less_nat_alt word_unat_eq_iff unat_Suc64 [OF True]
          valid_id_def max_ask_id_eq)
  next
    case False
    with assms OrderId have "v \<noteq> 0xfffffffffffffffe" "v \<noteq> 0xffffffffffffffff"
      and j: "j = OrderId (v + 1)"
      by (auto simp: increase_by_one_ask valid_id_def max_ask_id_eq split: if_splits)
    then have "unat v < 0xfffffffffffffffe"
      using unat_lt2p [of v] by (simp add: word_unat_eq_iff)
    moreover have "unat (v + 1) = Suc (unat v)"
      by (rule unat_Suc64 [of _ "0xffffffffffffffff"]) (use calculation in \<open>simp add: word_less_nat_alt\<close>)
    ultimately show ?thesis
      using False j OrderId
      by (auto simp: is_bid_id_iff word_less_nat_alt word_unat_eq_iff valid_id_def max_ask_id_eq)
  qed
qed

lemma order_id_new_side: "is_bid_id (order_id_new b) = b"
  by (simp add: is_bid_id_iff order_id_new_def start_bid_id_def start_ask_id_val)

lemma order_id_new_valid: "valid_id (order_id_new b)"
  by (simp add: valid_id_def order_id_new_def start_bid_id_def start_ask_id_def max_ask_id_eq)

interpretation order_id: orderbook_order_id order_id_new checked_increase is_bid_id valid_id
  by unfold_locales
    (simp_all add: order_id_new_side order_id_new_valid checked_increase_def less_OrderId_def
      increase_by_one_cases)

text \<open>
  The ids handed out for bids and for asks never collide: whatever number of ids each
  counter issues, starting from its initial value, the ids of a counter are strictly
  increasing, all bid ids are recognised as bids, all ask ids as asks, and no id is in both.
\<close>

theorem order_ids_never_collide:
  "sorted_wrt (<) (issue_ids checked_increase n (order_id_new b))
   \<and> list_all (\<lambda>i. is_bid_id i = b) (issue_ids checked_increase n (order_id_new b))
   \<and> set (issue_ids checked_increase m (order_id_new True))
       \<inter> set (issue_ids checked_increase n (order_id_new False)) = {}"
  by (simp add: order_id.issued_sorted order_id.valid_new order_id.issued_sides_disjoint
      list_all_iff order_id.issued_side [OF order_id.valid_new] order_id.is_bid_new)

end
