(* ===== verification/Ticks.thy ===== *)
theory Ticks
  imports OrderIds
begin

text \<open>
  Orders and price levels (\<open>pallets/hybrid-orderbook/src/types.rs\<close>, \<open>Order\<close>,
  \<open>Tick\<close> and the trait \<open>OrderInterface\<close> with its implementation for \<open>Tick\<close>).
  A tick holds the open orders of one price in a \<open>BTreeMap\<close> keyed by order id, so that
  iteration is in the order the ids were issued. The trait is the locale
  \<open>order_interface\<close>; \<open>Tick\<close> is its interpretation.
\<close>

record ('q, 'a, 'b) order =
  order_quantity :: 'q
  order_owner :: 'a
  order_expired_at :: 'b

record ('q, 'a, 'b) tick =
  open_orders :: "(OrderId, ('q, 'a, 'b) order) btreemap"

datatype order_error = OrderNotExist | NotOwner | Underflow | OrderOverflow

subsection \<open>Operations\<close>

definition order_new :: "'a \<Rightarrow> 'u::len word \<Rightarrow> 'b \<Rightarrow> ('u word, 'a, 'b) order" where
  "order_new owner quantity expired_at =
     \<lparr>order_quantity = quantity, order_owner = owner, order_expired_at = expired_at\<rparr>"

definition tick_new :: "OrderId \<Rightarrow> 'a \<Rightarrow> 'u::len word \<Rightarrow> 'b \<Rightarrow> ('u word, 'a, 'b) tick" where
  "tick_new order_id owner quantity expired_at =
     \<lparr>open_orders = bt_insert order_id (order_new owner quantity expired_at) []\<rparr>"

definition find_order_of :: "('q, 'a, 'b) tick \<Rightarrow> 'a \<Rightarrow> ('q, 'a, 'b) order list option" where
  "find_order_of t owner =
     (let matched = filter (\<lambda>ord. order_owner ord = owner) (map snd (open_orders t))
      in if matched = [] then None else Some matched)"

definition tick_orders :: "('q, 'a, 'b) tick \<Rightarrow> ('q, 'a, 'b) tick" where
  "tick_orders t = t"

definition tick_is_empty :: "('q, 'a, 'b) tick \<Rightarrow> bool" where
  "tick_is_empty t \<longleftrightarrow> open_orders t = []"

definition placed :: "('u word, 'a, 'b) tick \<Rightarrow> OrderId \<Rightarrow> 'a \<Rightarrow> 'u::len word \<Rightarrow> 'b \<Rightarrow> ('u word, 'a, 'b) tick" where
  "placed t order_id owner quantity expired_at =
     t\<lparr>open_orders := bt_insert order_id (order_new owner quantity expired_at) (open_orders t)\<rparr>"

text \<open>The loop of \<open>filled\<close> over \<open>open_orders.iter_mut()\<close>: the orders as the loop leaves
  them, the ids to remove, the fills and the filled quantity.\<close>

fun fill_loop :: "'u::len word \<Rightarrow> 'u word \<Rightarrow> (OrderId \<times> ('u word, 'a, 'b) order) list \<Rightarrow>
    (OrderId \<times> ('u word, 'a, 'b) order) list \<times> OrderId list \<times> ('a \<times> 'u word) list \<times> 'u word" where
  "fill_loop quantity filled [] = ([], [], [], filled)"
| "fill_loop quantity filled ((i, ord) # orders) =
     (let remain = quantity - filled
      in if remain = 0 then ((i, ord) # orders, [], [], filled)
         else if remain \<le> order_quantity ord then
           (let (orders', to_remove, res, filled') = fill_loop quantity (filled + remain) orders
            in ((i, ord\<lparr>order_quantity := order_quantity ord - remain\<rparr>) # orders', to_remove,
                (order_owner ord, remain) # res, filled'))
         else
           (let (orders', to_remove, res, filled') =
                  fill_loop quantity (filled + order_quantity ord) orders
            in ((i, ord) # orders', i # to_remove,
                (order_owner ord, order_quantity ord) # res, filled')))"

definition filled :: "('u word, 'a, 'b) tick \<Rightarrow> 'u::len word \<Rightarrow>
    ('u word, 'a, 'b) tick \<times> ('a \<times> 'u word) list option" where
  "filled t quantity =
     (let (orders, to_remove, res, filled) = fill_loop quantity 0 (open_orders t)
      in (t\<lparr>open_orders := fold bt_remove to_remove orders\<rparr>,
          if filled = 0 then None else Some res))"

definition added :: "('u word, 'a, 'b) tick \<Rightarrow> 'a \<Rightarrow> OrderId \<Rightarrow> 'u::len word \<Rightarrow>
    (order_error, ('u word, 'a, 'b) tick) result" where
  "added t maybe_owner order_id quantity =
     (case bt_get (open_orders t) order_id of
        None \<Rightarrow> Err OrderNotExist
      | Some ord \<Rightarrow>
          and_then (ensure (order_owner ord = maybe_owner) NotOwner) (\<lambda>_.
          and_then (ok_or (checked_add (order_quantity ord) quantity) OrderOverflow) (\<lambda>q.
          Ok (t\<lparr>open_orders := bt_insert order_id (ord\<lparr>order_quantity := q\<rparr>) (open_orders t)\<rparr>))))"

definition canceled :: "('u word, 'a, 'b) tick \<Rightarrow> 'a \<Rightarrow> OrderId \<Rightarrow> 'u::len word \<Rightarrow>
    (order_error, ('u word, 'a, 'b) tick) result" where
  "canceled t maybe_owner order_id quantity =
     (case bt_get (open_orders t) order_id of
        None \<Rightarrow> Err OrderNotExist
      | Some ord \<Rightarrow>
          and_then (ensure (order_owner ord = maybe_owner) NotOwner) (\<lambda>_.
          and_then (ok_or (checked_sub (order_quantity ord) quantity) Underflow) (\<lambda>q.
          Ok (t\<lparr>open_orders :=
                (if q = 0 then bt_remove order_id (open_orders t)
                 else bt_insert order_id (ord\<lparr>order_quantity := q\<rparr>) (open_orders t))\<rparr>))))"

subsection \<open>Reference: filling first in, first out\<close>

text \<open>Quantities as natural numbers and one pass that drops what it uses up.\<close>

fun fifo :: "nat \<Rightarrow> (OrderId \<times> ('u::len word, 'a, 'b) order) list \<Rightarrow>
    (OrderId \<times> ('u word, 'a, 'b) order) list \<times> ('a \<times> nat) list" where
  "fifo n [] = ([], [])"
| "fifo n ((i, ord) # orders) =
     (if n = 0 then ((i, ord) # orders, [])
      else if n \<le> unat (order_quantity ord) then
        ((i, ord\<lparr>order_quantity := order_quantity ord - of_nat n\<rparr>) # orders, [(order_owner ord, n)])
      else (let (orders', res) = fifo (n - unat (order_quantity ord)) orders
            in (orders', (order_owner ord, unat (order_quantity ord)) # res)))"

definition open_total :: "(OrderId \<times> ('u::len word, 'a, 'b) order) list \<Rightarrow> nat" where
  "open_total orders = (\<Sum>(i, ord) \<leftarrow> orders. unat (order_quantity ord))"

definition tick_total :: "('u::len word, 'a, 'b) tick \<Rightarrow> nat" where
  "tick_total t = open_total (open_orders t)"

definition fills_total :: "('a \<times> 'u::len word) list \<Rightarrow> nat" where
  "fills_total fills = (\<Sum>(owner, q) \<leftarrow> fills. unat q)"

lemma open_total_simps [simp]:
  "open_total [] = 0"
  "open_total ((i, ord) # orders) = unat (order_quantity ord) + open_total orders"
  by (simp_all add: open_total_def)

lemma fills_total_simps [simp]:
  "fills_total [] = 0"
  "fills_total ((a, q) # fills) = unat q + fills_total fills"
  by (simp_all add: fills_total_def)

subsection \<open>The reference conserves quantity and respects the order of ids\<close>

lemma fifo_fills: "(\<Sum>(a, q) \<leftarrow> snd (fifo n orders). q) = min n (open_total orders)"
  by (induction n orders rule: fifo.induct) (auto split: prod.splits)

lemma fifo_rest: "open_total (fst (fifo n orders)) = open_total orders - n"
proof (induction n orders rule: fifo.induct)
  case (2 n i ord orders)
  have "unat (order_quantity ord - of_nat n) = unat (order_quantity ord) - n"
    if "n \<le> unat (order_quantity ord)"
  proof -
    from that have "unat (of_nat n :: 'a word) = n"
      by (metis le_unat_uoi)
    with that show ?thesis
      by (simp add: unat_sub_le word_le_nat_alt)
  qed
  with 2 show ?case
    by (auto split: prod.splits)
qed simp

lemma fifo_exhausts: "open_total orders < n \<Longrightarrow> fst (fifo n orders) = []"
  by (induction n orders rule: fifo.induct) (auto split: prod.splits)

lemma fifo_keys: "k \<in> fst ` set (fst (fifo n orders)) \<Longrightarrow> k \<in> fst ` set orders"
  by (induction n orders rule: fifo.induct) (auto split: prod.splits if_splits)

lemma fifo_bt_ok: "bt_ok orders \<Longrightarrow> bt_ok (fst (fifo n orders))"
  by (induction n orders rule: fifo.induct) (auto split: prod.splits if_splits)

subsection \<open>The loop computes the reference\<close>

lemma fold_bt_remove: "fold bt_remove ks m = filter (\<lambda>e. fst e \<notin> set ks) m"
  by (induction ks arbitrary: m) (auto simp: bt_remove_def intro: filter_cong)

lemma fill_loop_done [simp]: "fill_loop q q orders = (orders, [], [], q)"
  by (cases orders) auto

lemma fifo_0 [simp]: "fifo 0 orders = (orders, [])"
  by (cases orders) auto

lemma fill_loop_fifo:
  assumes "distinct (map fst orders)" "fill_loop q f orders = (orders', ks, res, f')"
  shows "set ks \<subseteq> fst ` set orders \<and> map fst orders' = map fst orders
    \<and> fifo (unat (q - f)) orders =
        (filter (\<lambda>e. fst e \<notin> set ks) orders', map (\<lambda>(a, q). (a, unat q)) res)
    \<and> f' = f + of_nat (fills_total res)"
  using assms
proof (induction orders arbitrary: f orders' ks res f')
  case (Cons e orders)
  obtain i ord where e: "e = (i, ord)" by (cases e)
  let ?r = "q - f" and ?n = "order_quantity ord"
  have fresh: "filter (\<lambda>x. fst x \<noteq> i \<and> P x) os = filter P os" if "map fst os = map fst orders" for P os
  proof (rule filter_cong [OF refl])
    fix x assume "x \<in> set os"
    with that have "fst x \<in> set (map fst orders)" by (metis image_eqI list.set_map)
    with Cons.prems(1) e show "(fst x \<noteq> i \<and> P x) = P x" by auto
  qed
  consider "?r = 0" | "?r \<noteq> 0" "?r \<le> ?n" | "?r \<noteq> 0" "?n < ?r" by fastforce
  then show ?case
  proof cases
    case 1
    with Cons.prems e show ?thesis by simp
  next
    case 2
    then have "unat ?r \<noteq> 0" "unat ?r \<le> unat ?n"
      by (simp_all add: unat_eq_zero word_le_nat_alt)
    with 2 Cons.prems e show ?thesis by (auto simp: Let_def)
  next
    case 3
    obtain os2 ks2 res2 f2 where rec: "fill_loop q (f + ?n) orders = (os2, ks2, res2, f2)"
      by (metis prod_cases4)
    have n: "unat ?r \<noteq> 0" "\<not> unat ?r \<le> unat ?n" "unat (q - (f + ?n)) = unat ?r - unat ?n"
      using 3 unat_sub_le [of ?n ?r]
      by (simp_all add: unat_eq_zero word_less_nat_alt word_le_nat_alt diff_diff_eq [symmetric])
    have res: "orders' = (i, ord) # os2" "ks = i # ks2" "res = (order_owner ord, ?n) # res2" "f' = f2"
      using Cons.prems(2) e 3 rec by (auto simp: Let_def not_le [symmetric])
    have IH: "set ks2 \<subseteq> fst ` set orders" "map fst os2 = map fst orders"
      "fifo (unat ?r - unat ?n) orders =
         (filter (\<lambda>e. fst e \<notin> set ks2) os2, map (\<lambda>(a, q). (a, unat q)) res2)"
      "f2 = f + ?n + of_nat (fills_total res2)"
      using Cons.IH [OF _ rec] Cons.prems(1) n(3) by simp_all
    show ?thesis
      using IH n res fresh [OF IH(2)] e by (auto simp: add.assoc)
  qed
qed simp

lemma filled_eq_fifo:
  assumes "bt_ok (open_orders t)"
  shows "open_orders (fst (filled t q)) = fst (fifo (unat q) (open_orders t))"
    and "snd (filled t q) = None \<longleftrightarrow> min (unat q) (tick_total t) = 0"
    and "snd (filled t q) = Some res \<Longrightarrow>
      map (\<lambda>(a, q). (a, unat q)) res = snd (fifo (unat q) (open_orders t))
      \<and> fills_total res = min (unat q) (tick_total t)"
proof -
  obtain orders ks r f where loop: "fill_loop q 0 (open_orders t) = (orders, ks, r, f)"
    by (metis prod_cases4)
  note facts = fill_loop_fifo [OF bt_ok_distinct [OF assms] loop]
  have total: "fills_total r = min (unat q) (tick_total t)"
    using fifo_fills [of "unat q" "open_orders t"] facts
    by (simp add: fills_total_def tick_total_def o_def split_def)
  have "fills_total r < 2 ^ LENGTH('a)"
    using total unat_lt2p [of q] by linarith
  with facts total have f: "f = 0 \<longleftrightarrow> min (unat q) (tick_total t) = 0"
    by (simp add: word_of_nat_eq_0_iff nat_dvd_not_less) (metis dvd_0_right gr0I nat_dvd_not_less)
  show "open_orders (fst (filled t q)) = fst (fifo (unat q) (open_orders t))"
    using loop facts by (simp add: filled_def fold_bt_remove)
  show "snd (filled t q) = None \<longleftrightarrow> min (unat q) (tick_total t) = 0"
    using loop f by (simp add: filled_def)
  show "snd (filled t q) = Some res \<Longrightarrow>
      map (\<lambda>(a, q). (a, unat q)) res = snd (fifo (unat q) (open_orders t))
      \<and> fills_total res = min (unat q) (tick_total t)"
    using loop facts total by (auto simp: filled_def split: if_splits)
qed

subsection \<open>The trait and its clients\<close>

text \<open>The quantity that a call of \<open>filled\<close> reports, as \<open>do_fill_book\<close> sums it up.\<close>

definition fill_amount :: "('a \<times> 'u::len word) list option \<Rightarrow> nat" where
  "fill_amount fills = (case fills of None \<Rightarrow> 0 | Some res \<Rightarrow> fills_total res)"

locale order_interface =
  fixes ok :: "'o \<Rightarrow> bool"
    and total :: "'o \<Rightarrow> nat"
    and has_id :: "'o \<Rightarrow> 'i \<Rightarrow> bool"
    and is_empty :: "'o \<Rightarrow> bool"
    and place :: "'o \<Rightarrow> 'i \<Rightarrow> 'a \<Rightarrow> 'u::len word \<Rightarrow> 'b \<Rightarrow> 'o"
    and fill :: "'o \<Rightarrow> 'u word \<Rightarrow> 'o \<times> ('a \<times> 'u word) list option"
    and cancel :: "'o \<Rightarrow> 'a \<Rightarrow> 'i \<Rightarrow> 'u word \<Rightarrow> ('e, 'o) result"
  assumes ok_place: "ok t \<Longrightarrow> ok (place t i a q b)"
    and ok_fill: "ok t \<Longrightarrow> ok (fst (fill t q))"
    and ok_cancel: "ok t \<Longrightarrow> cancel t a i q = Ok t' \<Longrightarrow> ok t'"
    and total_place: "ok t \<Longrightarrow> \<not> has_id t i \<Longrightarrow> total (place t i a q b) = total t + unat q"
    and total_fill: "ok t \<Longrightarrow> total (fst (fill t q)) = total t - unat q"
    and amount_fill: "ok t \<Longrightarrow> fill_amount (snd (fill t q)) = min (unat q) (total t)"
    and total_cancel: "ok t \<Longrightarrow> cancel t a i q = Ok t' \<Longrightarrow> total t = total t' + unat q"
    and empty_total: "is_empty t \<Longrightarrow> total t = 0"
    and fill_exhausts: "ok t \<Longrightarrow> total t < unat q \<Longrightarrow> is_empty (fst (fill t q))"
begin

lemma fill_conserves: "ok t \<Longrightarrow> total t = total (fst (fill t q)) + fill_amount (snd (fill t q))"
  by (simp add: total_fill amount_fill)

lemma fill_progress:
  "ok t \<Longrightarrow> fill_amount (snd (fill t q)) = unat q \<or> is_empty (fst (fill t q))"
  using amount_fill [of t q] fill_exhausts [of t q] by (auto simp: min_def)

lemma fill_bounded: "ok t \<Longrightarrow> fill_amount (snd (fill t q)) \<le> unat q"
  by (simp add: amount_fill)

lemma place_then_cancel_total:
  "ok t \<Longrightarrow> \<not> has_id t i \<Longrightarrow> cancel (place t i a q b) a' i q' = Ok t' \<Longrightarrow>
    total t' + unat q' = total t + unat q"
  using ok_place total_cancel total_place by metis

end

subsection \<open>\<open>Tick\<close> satisfies the trait\<close>

definition tick_ok :: "('q, 'a, 'b) tick \<Rightarrow> bool" where
  "tick_ok t \<longleftrightarrow> bt_ok (open_orders t)"

definition tick_has_id :: "('q, 'a, 'b) tick \<Rightarrow> OrderId \<Rightarrow> bool" where
  "tick_has_id t i \<longleftrightarrow> bt_get (open_orders t) i \<noteq> None"

lemma bt_remove_absent: "bt_get m k = None \<Longrightarrow> bt_remove k m = m"
  by (induction m) (auto simp: bt_remove_def split: if_splits)

lemma open_total_insert:
  "bt_ok m \<Longrightarrow> open_total (bt_insert i ord m) = unat (order_quantity ord) + open_total (bt_remove i m)"
proof (induction m)
  case (Cons e m)
  have "i < fst e \<Longrightarrow> bt_remove i (e # m) = e # m"
    using Cons.prems bt_get_lt_None [of m "fst e" i] by (intro bt_remove_absent) auto
  moreover have "i = fst e \<Longrightarrow> bt_remove i m = m"
    using Cons.prems bt_get_lt_None [of m "fst e" i] by (intro bt_remove_absent) auto
  ultimately show ?case
    using Cons by (cases e) (auto simp: bt_remove_def)
qed (simp add: bt_remove_def)

lemma open_total_remove:
  "bt_ok m \<Longrightarrow> bt_get m i = Some ord \<Longrightarrow>
    open_total m = unat (order_quantity ord) + open_total (bt_remove i m)"
proof (induction m)
  case (Cons e m)
  have "i = fst e \<Longrightarrow> bt_remove i m = m"
    using Cons.prems bt_get_lt_None [of m "fst e" i] by (intro bt_remove_absent) auto
  with Cons show ?case
    by (cases e) (auto simp: bt_remove_def split: if_splits)
qed simp

lemma canceled_eq_Ok:
  "canceled t a i q = Ok t' \<longleftrightarrow>
    (\<exists>ord. bt_get (open_orders t) i = Some ord \<and> order_owner ord = a \<and> q \<le> order_quantity ord
      \<and> t' = t\<lparr>open_orders :=
          (if order_quantity ord = q then bt_remove i (open_orders t)
           else bt_insert i (ord\<lparr>order_quantity := order_quantity ord - q\<rparr>) (open_orders t))\<rparr>)"
  by (auto simp: canceled_def checked_sub_def result_iffs split: option.splits if_splits)

lemma canceled_total: "tick_ok t \<Longrightarrow> canceled t a i q = Ok t' \<Longrightarrow> tick_total t = tick_total t' + unat q"
  unfolding canceled_eq_Ok tick_ok_def
  by (auto simp: tick_total_def open_total_remove open_total_insert unat_sub_le word_le_nat_alt)

lemma tick_ok_preserved:
  "tick_ok t \<Longrightarrow> tick_ok (placed t i a q b)"
  "tick_ok t \<Longrightarrow> tick_ok (fst (filled t q))"
  "tick_ok t \<Longrightarrow> canceled t a i q = Ok t' \<Longrightarrow> tick_ok t'"
  by (auto simp: tick_ok_def placed_def filled_eq_fifo fifo_bt_ok canceled_eq_Ok)

lemma placed_total:
  "tick_ok t \<Longrightarrow> \<not> tick_has_id t i \<Longrightarrow> tick_total (placed t i a q b) = tick_total t + unat q"
  by (simp add: tick_ok_def tick_has_id_def tick_total_def placed_def order_new_def
      open_total_insert bt_remove_absent)

lemma filled_total: "tick_ok t \<Longrightarrow> tick_total (fst (filled t q)) = tick_total t - unat q"
  by (simp add: tick_ok_def tick_total_def filled_eq_fifo fifo_rest)

lemma filled_amount: "tick_ok t \<Longrightarrow> fill_amount (snd (filled t q)) = min (unat q) (tick_total t)"
  using filled_eq_fifo(2,3) [of t q]
  by (cases "snd (filled t q)") (auto simp: tick_ok_def fill_amount_def)

lemma filled_exhausts: "tick_ok t \<Longrightarrow> tick_total t < unat q \<Longrightarrow> tick_is_empty (fst (filled t q))"
  by (simp add: tick_ok_def tick_total_def tick_is_empty_def filled_eq_fifo fifo_exhausts)

interpretation tick: order_interface tick_ok tick_total tick_has_id tick_is_empty placed filled canceled
  by unfold_locales
    (simp_all add: tick_ok_preserved placed_total filled_total filled_amount filled_exhausts
      canceled_total, simp add: tick_is_empty_def tick_total_def)

subsection \<open>Properties\<close>

text \<open>
  C32. Filling a tick is first in, first out: \<open>filled\<close> leaves and reports exactly what the
  reference \<open>fifo\<close> does, which walks the orders by increasing id, uses each one up before
  it touches the next, and stops when the quantity is reached. It reports \<open>None\<close> exactly when
  nothing was filled.
\<close>

theorem tick_filled_is_fifo:
  assumes "bt_ok (open_orders t)"
  shows "open_orders (fst (filled t q)) = fst (fifo (unat q) (open_orders t))
    \<and> (case snd (filled t q) of
          None \<Rightarrow> (\<Sum>(a, n) \<leftarrow> snd (fifo (unat q) (open_orders t)). n) = 0
        | Some res \<Rightarrow> map (\<lambda>(a, n). (a, unat n)) res = snd (fifo (unat q) (open_orders t)))"
  using filled_eq_fifo [OF assms, of q] fifo_fills [of "unat q" "open_orders t"]
  by (auto simp: tick_total_def split: option.splits)

definition sample_tick :: "(64 word, nat, nat) tick" where
  "sample_tick = placed (placed (tick_new (OrderId 0) 1 50 9) (OrderId 1) 2 100 9) (OrderId 2) 3 7 9"

theorem tick_filled_is_fifo_witness:
  "bt_ok (open_orders sample_tick)
   \<and> open_orders (fst (filled sample_tick 60)) = fst (fifo 60 (open_orders sample_tick))
   \<and> snd (filled sample_tick 60) = Some [(1, 50), (2, 10)]"
proof -
  have ok: "bt_ok (open_orders sample_tick)"
    by (simp add: sample_tick_def placed_def tick_new_def)
  moreover have "snd (filled sample_tick 60) = Some [(1, 50), (2, 10)]"
    by code_simp
  moreover have "unat (60 :: 64 word) = 60"
    by simp
  ultimately show ?thesis
    using tick_filled_is_fifo [OF ok, of 60, THEN conjunct1] by metis
qed

text \<open>
  Filling conserves quantity and never fills more than asked: what is left plus what is
  reported is what was there, and the reported quantity is the smaller of the request and the
  open quantity. A tick that could not satisfy the request is left empty.
\<close>

theorem tick_filled_conserves:
  assumes "tick_ok t"
  shows "tick_total t = tick_total (fst (filled t q)) + fill_amount (snd (filled t q))
    \<and> fill_amount (snd (filled t q)) = min (unat q) (tick_total t)
    \<and> (fill_amount (snd (filled t q)) = unat q \<or> tick_is_empty (fst (filled t q)))"
  by (intro conjI tick.fill_conserves [OF assms] tick.amount_fill [OF assms]
      tick.fill_progress [OF assms])

theorem tick_filled_conserves_witness:
  "tick_total sample_tick = 157 \<and> tick_total (fst (filled sample_tick 60)) = 97
   \<and> tick_is_empty (fst (filled sample_tick 200))"
proof -
  have ok: "tick_ok sample_tick" and t: "tick_total sample_tick = 157"
    by (simp_all add: sample_tick_def tick_ok_def tick_total_def placed_def tick_new_def order_new_def)
  have "fill_amount (snd (filled sample_tick 60)) = 60"
    "fill_amount (snd (filled sample_tick 200)) = 157"
    using tick_filled_conserves [OF ok, THEN conjunct2, THEN conjunct1] t by simp_all
  then show ?thesis
    using tick_filled_conserves [OF ok, of 60, THEN conjunct1] t
      tick_filled_conserves [OF ok, of 200, THEN conjunct2, THEN conjunct2]
    by simp
qed


text \<open>
  An order that is filled to its last unit by the request that reaches it stays in the tick
  with quantity zero: the removal branch of the loop is only taken for orders smaller than what
  remains. The tick is then not empty although nothing can be bought from it.
\<close>

theorem tick_filled_exact_keeps_zero_order:
  fixes q :: "'u::len word"
  assumes "q \<noteq> 0"
  shows "filled (tick_new i a q b) q =
      (\<lparr>open_orders = [(i, \<lparr>order_quantity = 0, order_owner = a, order_expired_at = b\<rparr>)]\<rparr>, Some [(a, q)])
    \<and> \<not> tick_is_empty (fst (filled (tick_new i a q b) q))
    \<and> tick_total (fst (filled (tick_new i a q b) q)) = 0"
  using assms by (simp add: filled_def tick_new_def order_new_def tick_is_empty_def tick_total_def)

theorem tick_filled_exact_keeps_zero_order_witness:
  "\<not> tick_is_empty (fst (filled (tick_new (OrderId 0) (1::nat) (5 :: 64 word) (0::nat)) 5))"
  by (rule tick_filled_exact_keeps_zero_order [THEN conjunct2, THEN conjunct1]) simp

end
