(* ===== verification/OrderBooks.thy ===== *)
theory OrderBooks
  imports PriceMap Ticks
begin

text \<open>
  The order book (\<open>pallets/hybrid-orderbook/src/critbit.rs\<close>, \<open>impl OrderBook for
  CritbitTree\<close>, and the trait \<open>OrderBook\<close> of \<open>types.rs\<close>): a crit-bit tree from prices to
  ticks. The abstract order book is a map from prices to ticks with one function per operation;
  the locale \<open>order_book\<close> is the trait with its contract, interpreted by the tree.
\<close>

type_synonym ('u, 'a, 'b) orderbook = "('u, ('u word, 'a, 'b) tick) critbit"

type_synonym ('u, 'a, 'b) book_map = "'u word \<Rightarrow> ('u word, 'a, 'b) tick option"

subsection \<open>Operations\<close>

definition book_new :: "('u::len, 'a, 'b) orderbook" where
  "book_new = critbit_new"

definition book_size :: "('u::len, 'a, 'b) orderbook \<Rightarrow> nat" where
  "book_size t = critbit_size t"

definition book_is_empty :: "('u::len, 'a, 'b) orderbook \<Rightarrow> bool" where
  "book_is_empty t = critbit_is_empty t"

definition get_orders :: "('u::len, 'a, 'b) orderbook \<Rightarrow> 'a \<Rightarrow> ('u word, 'a, 'b) order list" where
  "get_orders t owner =
     concat (map (\<lambda>(i, l). case find_order_of (leaf_value l) owner of
                             Some orders \<Rightarrow> orders
                           | None \<Rightarrow> []) (leaves t))"

definition open_orders_at ::
  "('u::len, 'a, 'b) orderbook \<Rightarrow> 'u word \<Rightarrow> (CritbitTreeError, ('u word, 'a, 'b) tick option) result"
where
  "open_orders_at t key =
     and_then (find_leaf t key) (\<lambda>found.
       case found of
         Some leaf_index \<Rightarrow>
           (case bt_get (leaves t) leaf_index of
              Some leaf \<Rightarrow> Ok (Some (tick_orders (leaf_value leaf)))
            | None \<Rightarrow> Ok None)
       | None \<Rightarrow> Ok None)"

definition min_order :: "('u::len, 'a, 'b) orderbook \<Rightarrow> ('u word \<times> 'u word) option" where
  "min_order t = (case min_leaf t of Ok maybe_min \<Rightarrow> maybe_min | _ \<Rightarrow> None)"

definition max_order :: "('u::len, 'a, 'b) orderbook \<Rightarrow> ('u word \<times> 'u word) option" where
  "max_order t = (case max_leaf t of Ok maybe_max \<Rightarrow> maybe_max | _ \<Rightarrow> None)"

definition book_place_order ::
  "('u::len, 'a, 'b) orderbook \<Rightarrow> OrderId \<Rightarrow> 'a \<Rightarrow> 'u word \<Rightarrow> 'u word \<Rightarrow> 'b
    \<Rightarrow> (CritbitTreeError, ('u, 'a, 'b) orderbook) result"
where
  "book_place_order t order_id owner key quantity expired_at =
     and_then (find_leaf t key) (\<lambda>found.
       case found of
         Some leaf_index \<Rightarrow>
           if leaf_index = PARTITION_INDEX then Err LeafNodeShouldExist
           else and_then (ok_or (bt_get (leaves t) leaf_index) LeafNodeShouldExist) (\<lambda>leaf_node.
             Ok (set_leaf_value t leaf_index
                  (placed (leaf_value leaf_node) order_id owner quantity expired_at)))
       | None \<Rightarrow> critbit_insert t key (tick_new order_id owner quantity expired_at))"

definition book_fill_order ::
  "('u::len, 'a, 'b) orderbook \<Rightarrow> 'u word \<Rightarrow> 'u word
    \<Rightarrow> (CritbitTreeError, ('a \<times> 'u word) list option \<times> ('u, 'a, 'b) orderbook) result"
where
  "book_fill_order t key quantity =
     and_then (find_leaf t key) (\<lambda>found.
       case found of
         Some leaf_index \<Rightarrow>
           (case bt_get (leaves t) leaf_index of
              Some leaf \<Rightarrow>
                (let (tick', fills) = filled (leaf_value leaf) quantity;
                     t1 = set_leaf_value t leaf_index tick'
                 in if tick_is_empty tick'
                    then and_then (remove_leaf_by_index t1 leaf_index) (\<lambda>(_, t2). Ok (fills, t2))
                    else Ok (fills, t1))
            | None \<Rightarrow> Ok (None, t))
       | None \<Rightarrow> Ok (None, t))"

definition book_cancel_order ::
  "('u::len, 'a, 'b) orderbook \<Rightarrow> 'a \<Rightarrow> 'u word \<Rightarrow> OrderId \<Rightarrow> 'u word
    \<Rightarrow> (CritbitTreeError, ('u, 'a, 'b) orderbook) result"
where
  "book_cancel_order t maybe_owner key order_id quantity =
     and_then (find_leaf t key) (\<lambda>found.
       case found of
         Some leaf_index \<Rightarrow>
           if leaf_index = PARTITION_INDEX then Ok t
           else (case bt_get (leaves t) leaf_index of
                   Some leaf \<Rightarrow>
                     and_then (map_err (\<lambda>_. ValueOps)
                                (canceled (leaf_value leaf) maybe_owner order_id quantity)) (\<lambda>tick'.
                     Ok (set_leaf_value t leaf_index tick'))
                 | None \<Rightarrow> Err NotFound)
       | None \<Rightarrow> Err NotFound)"

subsection \<open>The abstract order book\<close>

definition place_spec ::
  "('u::len, 'a, 'b) book_map \<Rightarrow> OrderId \<Rightarrow> 'a \<Rightarrow> 'u word \<Rightarrow> 'u word \<Rightarrow> 'b \<Rightarrow> ('u, 'a, 'b) book_map"
where
  "place_spec m order_id owner key quantity expired_at =
     m(key \<mapsto> (case m key of
                 Some tck \<Rightarrow> placed tck order_id owner quantity expired_at
               | None \<Rightarrow> tick_new order_id owner quantity expired_at))"

definition fill_spec ::
  "('u::len, 'a, 'b) book_map \<Rightarrow> 'u word \<Rightarrow> 'u word \<Rightarrow> ('a \<times> 'u word) list option \<times> ('u, 'a, 'b) book_map"
where
  "fill_spec m key quantity =
     (case m key of
        Some tck \<Rightarrow>
          (snd (filled tck quantity),
           if tick_is_empty (fst (filled tck quantity)) then m(key := None)
           else m(key \<mapsto> fst (filled tck quantity)))
      | None \<Rightarrow> (None, m))"

definition cancel_spec ::
  "('u::len, 'a, 'b) book_map \<Rightarrow> 'a \<Rightarrow> 'u word \<Rightarrow> OrderId \<Rightarrow> 'u word
    \<Rightarrow> (CritbitTreeError, ('u, 'a, 'b) book_map) result"
where
  "cancel_spec m maybe_owner key order_id quantity =
     (case m key of
        Some tck \<Rightarrow>
          and_then (map_err (\<lambda>_. ValueOps) (canceled tck maybe_owner order_id quantity)) (\<lambda>tick'.
          Ok (m(key \<mapsto> tick')))
      | None \<Rightarrow> Err NotFound)"

definition book_ok :: "('u::len, 'a, 'b) orderbook \<Rightarrow> bool" where
  "book_ok t \<longleftrightarrow> wf_tree t \<and> (\<forall>tck \<in> ran (tree_map t). tick_ok tck)"

definition book_full :: "('u::len, 'a, 'b) orderbook \<Rightarrow> bool" where
  "book_full t \<longleftrightarrow> next_leaf_node_index t = CAPACITY"

text \<open>The open quantity of the levels of an abstract order book.\<close>

definition book_total :: "('u::len, 'a, 'b) book_map \<Rightarrow> nat" where
  "book_total m = (\<Sum>k \<in> dom m. tick_total (the (m k)))"

text \<open>A book with two levels, for the concrete instances below.\<close>

definition sample_book :: "(8, nat, nat) orderbook" where
  "sample_book =
     (case and_then (book_place_order book_new (OrderId 0) 1 20 5 99) (\<lambda>t.
           and_then (book_place_order t (OrderId 1) 2 30 7 99) (\<lambda>t.
           book_place_order t (OrderId 2) 3 20 4 99)) of
        Ok t \<Rightarrow> t
      | _ \<Rightarrow> book_new)"

locale order_book =
  fixes new :: 't
    and place :: "'t \<Rightarrow> OrderId \<Rightarrow> 'a \<Rightarrow> 'u::len word \<Rightarrow> 'u word \<Rightarrow> 'b \<Rightarrow> (CritbitTreeError, 't) result"
    and fill :: "'t \<Rightarrow> 'u word \<Rightarrow> 'u word \<Rightarrow> (CritbitTreeError, ('a \<times> 'u word) list option \<times> 't) result"
    and cancel :: "'t \<Rightarrow> 'a \<Rightarrow> 'u word \<Rightarrow> OrderId \<Rightarrow> 'u word \<Rightarrow> (CritbitTreeError, 't) result"
    and best_min :: "'t \<Rightarrow> ('u word \<times> 'u word) option"
    and best_max :: "'t \<Rightarrow> ('u word \<times> 'u word) option"
    and ok :: "'t \<Rightarrow> bool"
    and full :: "'t \<Rightarrow> bool"
    and book :: "'t \<Rightarrow> ('u, 'a, 'b) book_map"
  assumes ok_new: "ok new" and book_new: "book new = Map.empty"
    and finite_book: "ok t \<Longrightarrow> finite (dom (book t))"
    and ticks_ok: "ok t \<Longrightarrow> book t k = Some tck \<Longrightarrow> tick_ok tck"
    and place_ok: "ok t \<Longrightarrow> \<not> full t \<or> book t k \<noteq> None \<Longrightarrow>
      \<exists>t'. place t i a k q e = Ok t' \<and> ok t' \<and> book t' = place_spec (book t) i a k q e"
    and fill_ok: "ok t \<Longrightarrow>
      \<exists>t'. fill t k q = Ok (fst (fill_spec (book t) k q), t') \<and> ok t' \<and> book t' = snd (fill_spec (book t) k q)"
    and cancel_ok: "ok t \<Longrightarrow> cancel_spec (book t) a k i q = Ok m \<Longrightarrow>
      \<exists>t'. cancel t a k i q = Ok t' \<and> ok t' \<and> book t' = m"
    and best_ok: "ok t \<Longrightarrow> map_option fst (best_min t) = (if book t = Map.empty then None else Some (Min (dom (book t))))"
      "ok t \<Longrightarrow> map_option fst (best_max t) = (if book t = Map.empty then None else Some (Max (dom (book t))))"
begin

lemma best_prices:
  assumes "ok t" "book t k = Some tck"
  obtains p i p' i' where "best_min t = Some (p, i)" "p \<le> k" "best_max t = Some (p', i')" "k \<le> p'"
    "p \<in> dom (book t)" "p' \<in> dom (book t)"
proof -
  have ne: "book t \<noteq> Map.empty" and k: "k \<in> dom (book t)"
    using assms(2) by auto
  obtain p i where p: "best_min t = Some (p, i)" "p = Min (dom (book t))"
    using best_ok(1) [OF assms(1)] ne by (cases "best_min t") auto
  obtain p' i' where p': "best_max t = Some (p', i')" "p' = Max (dom (book t))"
    using best_ok(2) [OF assms(1)] ne by (cases "best_max t") auto
  show thesis
  proof (rule that [OF p(1) _ p'(1)])
    show "p \<le> k" "k \<le> p'"
      using k finite_book [OF assms(1)] p(2) p'(2) by simp_all
    show "p \<in> dom (book t)" "p' \<in> dom (book t)"
      unfolding p(2) p'(2) using k finite_book [OF assms(1)] by (metis Min_in Max_in empty_iff)+
  qed
qed

text \<open>Filling a level takes exactly what it reports out of the book.\<close>

lemma fill_total:
  assumes "ok t" "fill t k q = Ok (fills, t')"
  shows "book_total (book t) = book_total (book t') + fill_amount fills"
    and "fill_amount fills \<le> unat q"
proof -
  from fill_ok [OF assms(1), of k q] assms(2)
  have r: "fills = fst (fill_spec (book t) k q)" "book t' = snd (fill_spec (book t) k q)"
    by auto
  have "book_total (book t) = book_total (book t') + fill_amount fills \<and> fill_amount fills \<le> unat q"
  proof (cases "book t k")
    case None
    with r show ?thesis
      by (simp add: fill_spec_def fill_amount_def)
  next
    case (Some tck)
    let ?rest = "\<Sum>x \<in> dom (book t) - {k}. tick_total (the (book t x))"
    note tck = ticks_ok [OF assms(1) Some]
    have "book_total (book t) = tick_total tck + ?rest"
      using Some finite_book [OF assms(1)] unfolding book_total_def
      by (subst sum.remove [of _ k]) auto
    moreover have "book_total (book t') = tick_total (fst (filled tck q)) + ?rest"
    proof (cases "tick_is_empty (fst (filled tck q))")
      case True
      then have "tick_total (fst (filled tck q)) = 0"
        by (rule tick.empty_total)
      moreover have "book t' = (book t)(k := None)"
        using r(2) Some True by (simp add: fill_spec_def)
      ultimately show ?thesis
        unfolding book_total_def by (auto intro!: sum.cong)
    next
      case False
      then have "book t' = (book t)(k \<mapsto> fst (filled tck q))"
        using r(2) Some by (simp add: fill_spec_def)
      then show ?thesis
        using Some finite_book [OF assms(1)] unfolding book_total_def
        by (subst sum.remove [of _ k]) (auto intro!: sum.cong)
    qed
    ultimately show ?thesis
      using tick.fill_conserves [OF tck, of q] tick.fill_bounded [OF tck, of q] r(1) Some
      by (simp add: fill_spec_def)
  qed
  then show "book_total (book t) = book_total (book t') + fill_amount fills" "fill_amount fills \<le> unat q"
    by blast+
qed

text \<open>A fill that does not reach the requested quantity removes its level.\<close>

lemma fill_progress:
  assumes "ok t" "fill t k q = Ok (fills, t')" "book t k \<noteq> None"
  shows "fill_amount fills = unat q \<or> dom (book t') = dom (book t) - {k}"
proof -
  from fill_ok [OF assms(1), of k q] assms(2)
  have r: "fills = fst (fill_spec (book t) k q)" "book t' = snd (fill_spec (book t) k q)"
    by auto
  obtain tck where tck: "book t k = Some tck"
    using assms(3) by blast
  show ?thesis
    using tick.fill_progress [OF ticks_ok [OF assms(1) tck], of q] r tck
    by (auto simp: fill_spec_def)
qed

end

subsection \<open>The tree implements the order book\<close>

lemma found_index_less:
  assumes "wf_tree T" "find_leaf T k = Ok (Some i)"
  shows "i \<noteq> PARTITION_INDEX"
  using assms(1)
proof (cases rule: wf_cases)
  case (tree t)
  obtain lf where "bt_get (leaves T) i = Some lf"
    using found_leaf [OF assms] by blast
  then have "i \<in> set (leaf_ids t)"
    using linked_dom_leaves [OF tree(1)] by blast
  then have "i < CAPACITY"
    by (rule rep_leaf_ids_less [OF linked_rep [OF tree(1)]])
  then show ?thesis
    using CAPACITY_less_PARTITION [where 'k = 'a] by (metis less_trans less_irrefl)
qed (use assms(2) in simp)

lemma book_lookup:
  assumes "wf_tree T"
  obtains "find_leaf T k = Ok None" "tree_map T k = None"
  | i lf where "find_leaf T k = Ok (Some i)" "bt_get (leaves T) i = Some lf" "tree_map T k = Some (leaf_value lf)"
      "i \<noteq> PARTITION_INDEX"
proof (rule critbit.find_cases [OF assms, of k])
  assume "find_leaf T k = Ok None" "tree_map T k = None"
  then show thesis
    by (rule that(1))
next
  fix i v
  assume i: "find_leaf T k = Ok (Some i)"
  then show thesis
    using found_leaf [OF assms i] found_index_less [OF assms i] by (elim exE conjE) (rule that(2))
qed

lemma book_okD: "book_ok T \<Longrightarrow> wf_tree T" "book_ok T \<Longrightarrow> tree_map T k = Some tck \<Longrightarrow> tick_ok tck"
  by (auto simp: book_ok_def intro: ranI)

lemma book_ok_update:
  "wf_tree T' \<Longrightarrow> tree_map T' = (tree_map T)(k \<mapsto> tck) \<Longrightarrow> book_ok T \<Longrightarrow> tick_ok tck \<Longrightarrow> book_ok T'"
  "wf_tree T' \<Longrightarrow> tree_map T' = (tree_map T)(k := None) \<Longrightarrow> book_ok T \<Longrightarrow> book_ok T'"
  by (auto simp: book_ok_def ran_def)

lemma tick_ok_new [simp]: "tick_ok (tick_new i a q e)"
  by (simp add: tick_ok_def tick_new_def)

lemma book_place_refines:
  assumes "book_ok T" "\<not> book_full T \<or> tree_map T k \<noteq> None"
  shows "\<exists>T'. book_place_order T i a k q e = Ok T' \<and> book_ok T' \<and> tree_map T' = place_spec (tree_map T) i a k q e"
proof (rule book_lookup [OF book_okD(1) [OF assms(1)], of k])
  assume k: "find_leaf T k = Ok None" "tree_map T k = None"
  then obtain T' where "critbit_insert T k (tick_new i a q e) = Ok T'" "wf_tree T'"
      "tree_map T' = (tree_map T)(k \<mapsto> tick_new i a q e)"
    using critbit.ins_ok [OF book_okD(1) [OF assms(1)] k(2)] assms(2) unfolding book_full_def by blast
  with k book_ok_update(1) [OF _ _ assms(1)] show ?thesis
    by (simp add: book_place_order_def place_spec_def)
next
  fix j lf
  assume k: "find_leaf T k = Ok (Some j)" "bt_get (leaves T) j = Some lf" "tree_map T k = Some (leaf_value lf)"
    "j \<noteq> PARTITION_INDEX"
  let ?T = "set_leaf_value T j (placed (leaf_value lf) i a q e)"
  have T: "wf_tree ?T" "tree_map ?T = (tree_map T)(k \<mapsto> placed (leaf_value lf) i a q e)"
    using critbit.set_ok [OF book_okD(1) [OF assms(1)] k(1)] by blast+
  moreover have "book_ok ?T"
    by (rule book_ok_update(1) [OF T assms(1)]) (rule tick_ok_preserved(1) [OF book_okD(2) [OF assms(1) k(3)]])
  ultimately show ?thesis
    using k by (simp add: book_place_order_def place_spec_def)
qed

lemma book_fill_refines:
  assumes "book_ok T"
  shows "\<exists>T'. book_fill_order T k q = Ok (fst (fill_spec (tree_map T) k q), T') \<and> book_ok T'
    \<and> tree_map T' = snd (fill_spec (tree_map T) k q)"
proof (rule book_lookup [OF book_okD(1) [OF assms], of k])
  assume "find_leaf T k = Ok None" "tree_map T k = None"
  with assms show ?thesis
    by (simp add: book_fill_order_def fill_spec_def)
next
  fix j lf
  assume k: "find_leaf T k = Ok (Some j)" "bt_get (leaves T) j = Some lf" "tree_map T k = Some (leaf_value lf)"
    "j \<noteq> PARTITION_INDEX"
  obtain tck fills where f: "filled (leaf_value lf) q = (tck, fills)"
    by fastforce
  note wf = book_okD(1) [OF assms]
  show ?thesis
  proof (cases "tick_is_empty tck")
    case True
    obtain T' where "remove_leaf_by_index (set_leaf_value T j tck) j = Ok (tck, T')" "wf_tree T'"
        "tree_map T' = (tree_map T)(k := None)"
      using critbit.set_then_rem [OF wf k(1), of tck] by blast
    with book_ok_update(2) [OF _ _ assms] True k f show ?thesis
      by (simp add: book_fill_order_def fill_spec_def)
  next
    case False
    let ?T = "set_leaf_value T j tck"
    have T: "wf_tree ?T" "tree_map ?T = (tree_map T)(k \<mapsto> tck)"
      using critbit.set_ok [OF wf k(1)] by blast+
    moreover have "book_ok ?T"
      using tick_ok_preserved(2) [OF book_okD(2) [OF assms k(3)], of q] f
      by (intro book_ok_update(1) [OF T assms]) simp
    ultimately show ?thesis
      using k f False by (simp add: book_fill_order_def fill_spec_def)
  qed
qed

lemma book_cancel_eq:
  assumes "book_ok T"
  shows "case cancel_spec (tree_map T) a k i q of
      Ok m \<Rightarrow> \<exists>T'. book_cancel_order T a k i q = Ok T' \<and> book_ok T' \<and> tree_map T' = m
    | Err e \<Rightarrow> book_cancel_order T a k i q = Err e
    | Panic \<Rightarrow> False
    | Diverge \<Rightarrow> False"
proof (rule book_lookup [OF book_okD(1) [OF assms], of k])
  assume "find_leaf T k = Ok None" "tree_map T k = None"
  with assms show ?thesis
    by (simp add: book_cancel_order_def cancel_spec_def)
next
  fix j lf
  assume k: "find_leaf T k = Ok (Some j)" "bt_get (leaves T) j = Some lf" "tree_map T k = Some (leaf_value lf)"
    "j \<noteq> PARTITION_INDEX"
  show ?thesis
  proof (cases "canceled (leaf_value lf) a i q")
    case (Ok tck)
    let ?T = "set_leaf_value T j tck"
    have T: "wf_tree ?T" "tree_map ?T = (tree_map T)(k \<mapsto> tck)"
      using critbit.set_ok [OF book_okD(1) [OF assms] k(1)] by blast+
    moreover have "book_ok ?T"
      by (rule book_ok_update(1) [OF T assms]) (rule tick_ok_preserved(3) [OF book_okD(2) [OF assms k(3)] Ok])
    ultimately show ?thesis
      using k Ok by (simp add: book_cancel_order_def cancel_spec_def)
  qed (use k in \<open>auto simp: book_cancel_order_def cancel_spec_def canceled_def checked_sub_def ensure_def split: option.splits if_splits\<close>)
qed

lemma book_cancel_refines:
  assumes "book_ok T" "cancel_spec (tree_map T) a k i q = Ok m"
  shows "\<exists>T'. book_cancel_order T a k i q = Ok T' \<and> book_ok T' \<and> tree_map T' = m"
  using book_cancel_eq [OF assms(1), of a k i q] assms(2) by simp

lemma finite_tree_map: "finite (dom (tree_map T))"
  by (simp add: tree_map_def finite_dom_map_of)

lemma book_best:
  assumes "book_ok T"
  shows "map_option fst (min_order T) = (if tree_map T = Map.empty then None else Some (Min (dom (tree_map T))))"
    and "map_option fst (max_order T) = (if tree_map T = Map.empty then None else Some (Max (dom (tree_map T))))"
  using extrema_wf [OF book_okD(1) [OF assms]] by (auto simp: min_order_def max_order_def split: if_splits)

interpretation book: order_book book_new book_place_order book_fill_order book_cancel_order min_order max_order
  book_ok book_full tree_map
proof unfold_locales
  show "book_ok book_new" "tree_map book_new = Map.empty"
    by (simp_all add: book_ok_def book_new_def wf_new)
  show "map_option fst (min_order T) = (if tree_map T = Map.empty then None else Some (Min (dom (tree_map T))))"
    "map_option fst (max_order T) = (if tree_map T = Map.empty then None else Some (Max (dom (tree_map T))))"
    if "book_ok T" for T :: "('a, 'b, 'c) orderbook"
    by (rule book_best [OF that])+
qed (rule finite_tree_map book_okD(2) book_place_refines book_fill_refines book_cancel_refines; assumption)+

subsection \<open>Properties\<close>

lemma book_place_full:
  assumes "book_ok T" "book_full T" "k \<notin> dom (tree_map T)"
  shows "book_place_order T i a k q e = Err ExceedCapacity"
proof -
  have "find_leaf T k = Ok None"
    by (rule find_leaf_absent [OF book_okD(1) [OF assms(1)] assms(3)])
  then show ?thesis
    using insert_full [of T] assms(2) by (simp add: book_place_order_def book_full_def)
qed

lemma book_ok_place: "book_ok T \<Longrightarrow> book_place_order T i a k q e = Ok T' \<Longrightarrow> book_ok T'"
  using book_place_refines [of T k i a q e] book_place_full [of T k i a q e] by (fastforce simp: domIff)

lemma book_ok_sample: "book_ok sample_book"
proof -
  have "case and_then (book_place_order book_new (OrderId 0) 1 20 5 99) (\<lambda>t.
      and_then (book_place_order t (OrderId 1) 2 30 7 99) (\<lambda>t.
      book_place_order t (OrderId 2) 3 20 4 99)) of
      Ok t \<Rightarrow> book_ok (t :: (8, nat, nat) orderbook) | _ \<Rightarrow> True"
    by (auto simp: and_then_eq_Ok split: result.splits
        intro: book_ok_place [OF book_ok_place [OF book_ok_place [OF book.ok_new]]])
  then show ?thesis
    unfolding sample_book_def by (auto split: result.splits intro: book.ok_new)
qed

lemma sample_book_map:
  "tree_map sample_book 20 = Some \<lparr>open_orders = [(OrderId 0, \<lparr>order_quantity = 5, order_owner = 1, order_expired_at = 99\<rparr>),
     (OrderId 2, \<lparr>order_quantity = 4, order_owner = 3, order_expired_at = 99\<rparr>)]\<rparr>"
  "tree_map sample_book 25 = None" "\<not> book_full sample_book"
  by code_simp+

text \<open>
  C17. Placing an order refines the abstract book: the order is appended to the tick of its price, or
  a new level is created; the only failure is a new level in a full tree.
\<close>

theorem place_order_refines_book:
  assumes "book_ok T"
  shows "if book_full T \<and> k \<notin> dom (tree_map T) then book_place_order T i a k q e = Err ExceedCapacity
    else \<exists>T'. book_place_order T i a k q e = Ok T' \<and> book_ok T'
      \<and> tree_map T' = place_spec (tree_map T) i a k q e"
  using book_place_full [OF assms, of k i a q e] book_place_refines [OF assms, of k i a q e] by auto

theorem place_order_refines_book_witness:
  "book_ok sample_book \<and> (\<exists>T'. book_place_order sample_book (OrderId 3) 4 25 6 99 = Ok T' \<and> book_ok T'
    \<and> tree_map T' = place_spec (tree_map sample_book) (OrderId 3) 4 25 6 99)"
  using place_order_refines_book [OF book_ok_sample, of 25 "OrderId 3" 4 6 99] book_ok_sample sample_book_map(3)
  by simp

text \<open>
  C8. Filling an order refines the abstract book and never fails on a well-formed book: at a price
  without a level nothing happens, otherwise the tick of the price is filled and its level
  disappears exactly when the tick is left without orders.
\<close>

theorem fill_order_refines_book:
  assumes "book_ok T"
  shows "\<exists>T'. book_fill_order T k q = Ok (fst (fill_spec (tree_map T) k q), T') \<and> book_ok T'
    \<and> tree_map T' = snd (fill_spec (tree_map T) k q)"
  using assms by (rule book.fill_ok)

theorem fill_order_refines_book_witness:
  "book_ok sample_book \<and> (\<exists>T'. book_fill_order sample_book 20 50 = Ok (Some [(1, 5), (3, 4)], T') \<and> book_ok T'
    \<and> tree_map T' = (tree_map sample_book)(20 := None))"
proof -
  have "fst (fill_spec (tree_map sample_book) 20 50) = Some [(1, 5), (3, 4)]"
      "tick_is_empty (fst (filled (the (tree_map sample_book 20)) 50))"
    by code_simp+
  then show ?thesis
    using fill_order_refines_book [OF book_ok_sample, of 20 50] book_ok_sample sample_book_map(1)
    by (simp add: fill_spec_def)
qed

text \<open>
  C16. Filling conserves quantity: the open quantity of the book drops by exactly the sum of the
  fills it reports, which is at most the requested quantity; and a request that is not met in full
  removes the level, so that repeated fills make progress.
\<close>

theorem fill_order_conserves:
  assumes "book_ok T" "book_fill_order T k q = Ok (fills, T')"
  shows "book_total (tree_map T) = book_total (tree_map T') + fill_amount fills \<and> fill_amount fills \<le> unat q
    \<and> (k \<notin> dom (tree_map T) \<or> fill_amount fills = unat q \<or> dom (tree_map T') = dom (tree_map T) - {k})"
  using book.fill_total [OF assms] book.fill_progress [OF assms] by auto

theorem fill_order_conserves_witness:
  "book_ok sample_book \<and> (\<exists>T'. book_fill_order sample_book 20 50 = Ok (Some [(1, 5), (3, 4)], T')
    \<and> book_total (tree_map sample_book) = book_total (tree_map T') + 9)"
proof -
  obtain T' where T': "book_fill_order sample_book 20 50 = Ok (fst (fill_spec (tree_map sample_book) 20 50), T')"
    using book.fill_ok [OF book_ok_sample] by blast
  moreover have "fst (fill_spec (tree_map sample_book) 20 50) = Some [(1, 5), (3, 4)]"
    by code_simp
  moreover have "fill_amount (Some [(1 :: nat, 5 :: 8 word), (3, 4)]) = 9"
    by code_simp
  ultimately show ?thesis
    using fill_order_conserves [OF book_ok_sample T'] book_ok_sample by auto
qed

text \<open>
  C18. Cancelling refines the abstract book on every branch: \<open>NotFound\<close> without a level at the
  price, \<open>ValueOps\<close> when the tick refuses (unknown order, not the owner, more than open), and
  otherwise the tick with the order reduced or gone.
\<close>

theorem cancel_order_refines_book:
  assumes "book_ok T"
  shows "case cancel_spec (tree_map T) a k i q of
      Ok m \<Rightarrow> \<exists>T'. book_cancel_order T a k i q = Ok T' \<and> book_ok T' \<and> tree_map T' = m
    | Err e \<Rightarrow> book_cancel_order T a k i q = Err e
    | Panic \<Rightarrow> False
    | Diverge \<Rightarrow> False"
  using assms by (rule book_cancel_eq)

theorem cancel_order_refines_book_witness:
  "book_ok sample_book \<and> book_cancel_order sample_book 1 25 (OrderId 0) 5 = Err NotFound
    \<and> book_cancel_order sample_book 2 20 (OrderId 0) 5 = Err ValueOps"
proof -
  have "cancel_spec (tree_map sample_book) 2 20 (OrderId 0) 5 = Err ValueOps"
      "cancel_spec (tree_map sample_book) 1 25 (OrderId 0) 5 = Err NotFound"
    using sample_book_map by (simp_all add: cancel_spec_def canceled_def)
  then show ?thesis
    using cancel_order_refines_book [OF book_ok_sample, of 2 20 "OrderId 0" 5]
      cancel_order_refines_book [OF book_ok_sample, of 1 25 "OrderId 0" 5] book_ok_sample
    by simp
qed

text \<open>
  Cancelling all of an order that was alone at its price leaves a level without orders behind:
  \<open>cancel_order\<close> removes the order from its tick but never the leaf of the tick, so the price
  stays in the book although nothing can be traded at it.
\<close>

theorem cancel_leaves_empty_level:
  assumes "book_ok T" "\<not> book_full T" "k \<notin> dom (tree_map T)"
  shows "\<exists>T' T''. book_place_order T i a k q e = Ok T' \<and> book_cancel_order T' a k i q = Ok T''
    \<and> tree_map T'' k = Some \<lparr>open_orders = []\<rparr>"
proof -
  obtain T' where T': "book_place_order T i a k q e = Ok T'" "book_ok T'"
      "tree_map T' = place_spec (tree_map T) i a k q e"
    using book.place_ok [OF assms(1)] assms(2) by blast
  have "tree_map T' k = Some (tick_new i a q e)"
    using T'(3) assms(3) by (simp add: place_spec_def domIff)
  then have "cancel_spec (tree_map T') a k i q = Ok ((tree_map T')(k \<mapsto> \<lparr>open_orders = []\<rparr>))"
    by (simp add: cancel_spec_def canceled_def tick_new_def order_new_def checked_sub_def bt_remove_def)
  with book.cancel_ok [OF T'(2)] T'(1) show ?thesis
    by (metis fun_upd_same)
qed

theorem cancel_leaves_empty_level_witness:
  "\<exists>T' T''. book_place_order sample_book (OrderId 9) 4 25 6 99 = Ok T'
    \<and> book_cancel_order T' 4 25 (OrderId 9) 6 = Ok T'' \<and> tree_map T'' 25 = Some \<lparr>open_orders = []\<rparr>"
  using cancel_leaves_empty_level [OF book_ok_sample sample_book_map(3), of 25 "OrderId 9" 4 6 99]
    sample_book_map(2) by (simp add: domIff)

text \<open>
  Best prices: on a well-formed book \<open>min_order\<close> and \<open>max_order\<close> report a price exactly when
  there is a level, and it is the least and the greatest price with a level.
\<close>

theorem best_prices_are_extrema:
  assumes "book_ok T"
  shows "map_option fst (min_order T) = (if tree_map T = Map.empty then None else Some (Min (dom (tree_map T))))
    \<and> map_option fst (max_order T) = (if tree_map T = Map.empty then None else Some (Max (dom (tree_map T))))"
  using book.best_ok [OF assms] by blast

theorem best_prices_are_extrema_witness:
  "book_ok sample_book \<and> Min (dom (tree_map sample_book)) = 20 \<and> Max (dom (tree_map sample_book)) = 30"
proof -
  have "map_option fst (min_order sample_book) = Some 20" "map_option fst (max_order sample_book) = Some 30"
    by code_simp+
  then show ?thesis
    using best_prices_are_extrema [OF book_ok_sample] book_ok_sample by (simp split: if_splits)
qed

end
