(* ===== verification/Pools.thy ===== *)
theory Pools
  imports OrderBooks
begin

text \<open>
  Pools and pool locators (\<open>pallets/hybrid-orderbook/src/types.rs\<close>, \<open>Pool\<close>,
  \<open>PoolQuery\<close>, \<open>PoolMetadata\<close> and the implementations of \<open>PoolLocator\<close>), and the error
  type of the pallet (\<open>lib.rs\<close>, \<open>Error\<close>). The invariant \<open>pool_ok\<close> says that both books
  are well-formed and that every open order carries an id of its side, older than the next id.
  The hash and the decoding behind \<open>PoolLocator::address\<close> are parameters.
\<close>

datatype pallet_error =
  InvalidAssetPair | PoolExists | WrongDesiredAmount | AmountOneLessThanMinimal
  | AmountTwoLessThanMinimal | ReserveLeftLessThanMinimal | AmountOutTooHigh | PoolNotFound
  | Overflow | AssetOneDepositDidNotMeetMinimum | AssetTwoDepositDidNotMeetMinimum
  | AssetOneWithdrawalDidNotMeetMinimum | AssetTwoWithdrawalDidNotMeetMinimum
  | OptimalAmountLessThanDesired | InsufficientLiquidityMinted | ZeroLiquidity | ZeroAmount
  | ProvidedMinimumNotSufficientForSwap | ProvidedMaximumNotSufficientForSwap | InvalidPath
  | NonUniquePath | IncorrectPoolAssetId | BelowMinimum | InvalidOrderPrice
  | InvalidOrderQuantity | ErrorOnFillOrder | ErrorOnPlaceOrder | ErrorOnCancelOrder
  | OrderNotFound | NoPermission | OverOrderQuantity | ConversionError | NoOps
  | InvalidTickSize | InvalidLotSize

record ('lp, 'book, 'q) pool =
  lp_token :: 'lp
  bids :: 'book
  asks :: 'book
  pool_next_bid :: OrderId
  pool_next_ask :: OrderId
  taker_fee_rate :: "32 word"
  tick_size :: 'q
  lot_size :: 'q
  pool_decimals :: "8 word"
  base_decimals :: "8 word"
  quote_decimals :: "8 word"

record ('book, 'q) pool_query =
  query_bids :: 'book
  query_asks :: 'book
  query_base_reserve :: 'q
  query_quote_reserve :: 'q
  query_pool_price :: 'q

record 'q pool_metadata =
  meta_taker_fee_rate :: "32 word"
  meta_lot_size :: 'q
  meta_tick_size :: 'q
  meta_pool_decimals :: "8 word"
  meta_base_decimals :: "8 word"
  meta_quote_decimals :: "8 word"

type_synonym ('lp, 'u, 'a, 'b) book_pool = "('lp, ('u, 'a, 'b) orderbook, 'u word) pool"

subsection \<open>Operations of a pool\<close>

definition pool_new ::
  "'lp \<Rightarrow> 32 word \<Rightarrow> 'u::len word \<Rightarrow> 'u word \<Rightarrow> 8 word \<Rightarrow> 8 word \<Rightarrow> 8 word \<Rightarrow> ('lp, 'u, 'a, 'b) book_pool"
where
  "pool_new lp fee tick lot p_decimals b_decimals q_decimals =
     \<lparr>lp_token = lp, bids = book_new, asks = book_new, pool_next_bid = order_id_new True,
      pool_next_ask = order_id_new False, taker_fee_rate = fee, tick_size = tick, lot_size = lot,
      pool_decimals = p_decimals, base_decimals = b_decimals, quote_decimals = q_decimals\<rparr>"

definition to_pool_query ::
  "('lp, 'u, 'a, 'b) book_pool \<Rightarrow> 'u::len word \<Rightarrow> 'u word \<Rightarrow> 'u word
    \<Rightarrow> (('u, 'a, 'b) orderbook, 'u word) pool_query"
where
  "to_pool_query p base_reserve quote_reserve price =
     \<lparr>query_bids = bids p, query_asks = asks p, query_base_reserve = base_reserve,
      query_quote_reserve = quote_reserve, query_pool_price = price\<rparr>"

definition to_pool_metadata :: "('lp, 'u::len, 'a, 'b) book_pool \<Rightarrow> 'u word pool_metadata" where
  "to_pool_metadata p =
     \<lparr>meta_taker_fee_rate = taker_fee_rate p, meta_lot_size = lot_size p, meta_tick_size = tick_size p,
      meta_pool_decimals = pool_decimals p, meta_base_decimals = base_decimals p,
      meta_quote_decimals = quote_decimals p\<rparr>"

definition decimal_adjustment ::
  "('lp, 'book, 'q) pool \<Rightarrow> 8 word option \<times> 8 word option \<times> 8 word option"
where
  "decimal_adjustment p =
     (let p_adj = (if pool_decimals p = 0 then None else Some (pool_decimals p))
      in if quote_decimals p < base_decimals p
         then (p_adj, None, Some (base_decimals p - quote_decimals p))
         else if base_decimals p < quote_decimals p
         then (p_adj, Some (quote_decimals p - base_decimals p), None)
         else (p_adj, None, None))"

definition get_orderbook :: "('lp, 'book, 'q) pool \<Rightarrow> bool \<Rightarrow> 'book" where
  "get_orderbook p is_bid = (if is_bid then bids p else asks p)"

definition orderbook_size :: "('lp, 'u::len, 'a, 'b) book_pool \<Rightarrow> bool \<Rightarrow> nat" where
  "orderbook_size p is_bid = (if is_bid then book_size (bids p) else book_size (asks p))"

text \<open>The remainder by a size of zero is a panic.\<close>

definition is_valid_order_price :: "('lp, 'u::len, 'a, 'b) book_pool \<Rightarrow> 'u word \<Rightarrow> (pallet_error, bool) result" where
  "is_valid_order_price p price =
     (if 0 < price then and_then (rem_word price (tick_size p)) (\<lambda>r. Ok (r = 0)) else Ok False)"

definition is_valid_order_quantity :: "('lp, 'u::len, 'a, 'b) book_pool \<Rightarrow> 'u word \<Rightarrow> (pallet_error, bool) result" where
  "is_valid_order_quantity p quantity =
     (if lot_size p \<le> quantity then and_then (rem_word quantity (lot_size p)) (\<lambda>r. Ok (r = 0)) else Ok False)"

definition orders_for :: "('lp, 'u::len, 'a, 'b) book_pool \<Rightarrow> 'a \<Rightarrow> bool \<Rightarrow> ('u word, 'a, 'b) order list" where
  "orders_for p owner is_bid = (if is_bid then get_orders (bids p) owner else get_orders (asks p) owner)"

definition next_bid_order_id :: "('lp, 'book, 'q) pool \<Rightarrow> (pallet_error, OrderId \<times> ('lp, 'book, 'q) pool) result" where
  "next_bid_order_id p =
     and_then (ok_or (checked_increase (pool_next_bid p)) Overflow) (\<lambda>n.
       Ok (pool_next_bid p, p\<lparr>pool_next_bid := n\<rparr>))"

definition next_ask_order_id :: "('lp, 'book, 'q) pool \<Rightarrow> (pallet_error, OrderId \<times> ('lp, 'book, 'q) pool) result" where
  "next_ask_order_id p =
     and_then (ok_or (checked_increase (pool_next_ask p)) Overflow) (\<lambda>n.
       Ok (pool_next_ask p, p\<lparr>pool_next_ask := n\<rparr>))"

definition bid_orders :: "('lp, 'book, 'q) pool \<Rightarrow> 'book" where
  "bid_orders p = bids p"

definition ask_orders :: "('lp, 'book, 'q) pool \<Rightarrow> 'book" where
  "ask_orders p = asks p"

definition next_bid_order :: "('lp, 'u::len, 'a, 'b) book_pool \<Rightarrow> ('u word \<times> 'u word) option" where
  "next_bid_order p = max_order (bids p)"

definition next_ask_order :: "('lp, 'u::len, 'a, 'b) book_pool \<Rightarrow> ('u word \<times> 'u word) option" where
  "next_ask_order p = min_order (asks p)"

text \<open>\<open>expired_at\<close> is the current block number plus \<open>OrderExpiration\<close>.\<close>

definition pool_place_order ::
  "'b \<Rightarrow> 'b \<Rightarrow> ('lp, 'u::len, 'a, 'b::plus) book_pool \<Rightarrow> bool \<Rightarrow> 'a \<Rightarrow> 'u word \<Rightarrow> 'u word
    \<Rightarrow> (pallet_error, ('u word \<times> OrderId) \<times> ('lp, 'u, 'a, 'b) book_pool) result"
where
  "pool_place_order current expiration p is_bid owner price quantity =
     (if is_bid then
        and_then (next_bid_order_id p) (\<lambda>(order_id, p1).
        and_then (map_err (\<lambda>_. ErrorOnPlaceOrder)
                   (book_place_order (bids p1) order_id owner price quantity (current + expiration))) (\<lambda>b.
        Ok ((price, order_id), p1\<lparr>bids := b\<rparr>)))
      else
        and_then (next_ask_order_id p) (\<lambda>(order_id, p1).
        and_then (map_err (\<lambda>_. ErrorOnPlaceOrder)
                   (book_place_order (asks p1) order_id owner price quantity (current + expiration))) (\<lambda>b.
        Ok ((price, order_id), p1\<lparr>asks := b\<rparr>))))"

definition pool_fill_order ::
  "('lp, 'u::len, 'a, 'b) book_pool \<Rightarrow> bool \<Rightarrow> 'u word \<Rightarrow> 'u word
    \<Rightarrow> (pallet_error, ('a \<times> 'u word) list option \<times> ('lp, 'u, 'a, 'b) book_pool) result"
where
  "pool_fill_order p is_bid price quantity =
     (if is_bid then
        and_then (map_err (\<lambda>_. ErrorOnFillOrder) (book_fill_order (asks p) price quantity)) (\<lambda>(r, b).
        Ok (r, p\<lparr>asks := b\<rparr>))
      else
        and_then (map_err (\<lambda>_. ErrorOnFillOrder) (book_fill_order (bids p) price quantity)) (\<lambda>(r, b).
        Ok (r, p\<lparr>bids := b\<rparr>)))"

definition pool_cancel_order ::
  "('lp, 'u::len, 'a, 'b) book_pool \<Rightarrow> 'a \<Rightarrow> 'u word \<Rightarrow> OrderId \<Rightarrow> 'u word
    \<Rightarrow> (pallet_error, OrderId \<times> ('lp, 'u, 'a, 'b) book_pool) result"
where
  "pool_cancel_order p maybe_owner price order_id quantity =
     (if is_bid_id order_id then
        and_then (map_err (\<lambda>_. ErrorOnCancelOrder)
                   (book_cancel_order (bids p) maybe_owner price order_id quantity)) (\<lambda>b.
        Ok (order_id, p\<lparr>bids := b\<rparr>))
      else
        and_then (map_err (\<lambda>_. ErrorOnCancelOrder)
                   (book_cancel_order (asks p) maybe_owner price order_id quantity)) (\<lambda>b.
        Ok (order_id, p\<lparr>asks := b\<rparr>)))"

subsection \<open>Pool locators\<close>

text \<open>
  \<open>hash_decode\<close> is \<open>Decode::decode(TrailingZeroInput(blake2_256(Encode::encode(id))))\<close>: the
  account, if the hash decodes to one.
\<close>

definition pool_address ::
  "('asset \<Rightarrow> 'asset \<Rightarrow> (unit, 'id) result) \<Rightarrow> ('id \<Rightarrow> (unit, 'acc) result) \<Rightarrow> 'asset \<Rightarrow> 'asset \<Rightarrow> (unit, 'acc) result"
where
  "pool_address pool_id address asset1 asset2 =
     and_then (map_err (\<lambda>_. ()) (pool_id asset1 asset2)) address"

definition locator_address :: "('id \<Rightarrow> 'acc option) \<Rightarrow> 'id \<Rightarrow> (unit, 'acc) result" where
  "locator_address hash_decode i = ok_or (hash_decode i) ()"

definition base_quote_pool_id :: "'asset \<Rightarrow> 'asset \<Rightarrow> (unit, 'asset \<times> 'asset) result" where
  "base_quote_pool_id base_asset quote_asset =
     (if base_asset = quote_asset then Err () else Ok (base_asset, quote_asset))"

definition with_first_asset_pool_id :: "'asset \<Rightarrow> 'asset \<Rightarrow> 'asset \<Rightarrow> (unit, 'asset \<times> 'asset) result" where
  "with_first_asset_pool_id first asset1 asset2 =
     (if asset1 = asset2 then Err ()
      else if first = asset1 then Ok (first, asset2)
      else if first = asset2 then Ok (first, asset1)
      else Err ())"

definition ascending_pool_id :: "'asset::linorder \<Rightarrow> 'asset \<Rightarrow> (unit, 'asset \<times> 'asset) result" where
  "ascending_pool_id asset1 asset2 =
     (if asset2 < asset1 then Ok (asset2, asset1)
      else if asset1 < asset2 then Ok (asset1, asset2)
      else Err ())"

definition result_or :: "(unit, 'a) result \<Rightarrow> (unit, 'a) result \<Rightarrow> (unit, 'a) result" where
  "result_or a b = (case a of Err _ \<Rightarrow> b | _ \<Rightarrow> a)"

definition chain_pool_id ::
  "('asset \<Rightarrow> 'asset \<Rightarrow> (unit, 'id) result) \<Rightarrow> ('asset \<Rightarrow> 'asset \<Rightarrow> (unit, 'id) result)
    \<Rightarrow> 'asset \<Rightarrow> 'asset \<Rightarrow> (unit, 'id) result"
where
  "chain_pool_id first second asset1 asset2 = result_or (first asset1 asset2) (second asset1 asset2)"

definition chain_address ::
  "('id \<Rightarrow> (unit, 'acc) result) \<Rightarrow> ('id \<Rightarrow> (unit, 'acc) result) \<Rightarrow> 'id \<Rightarrow> (unit, 'acc) result"
where
  "chain_address first second i = result_or (first i) (second i)"

definition account_id_try_convert :: "('seed \<times> 'id \<Rightarrow> 'acc option) \<Rightarrow> 'seed \<Rightarrow> 'id \<Rightarrow> ('id, 'acc) result" where
  "account_id_try_convert hash_decode seed i = ok_or (hash_decode (seed, i)) i"

definition account_id_try_convert_no_seed :: "('id \<Rightarrow> 'acc option) \<Rightarrow> 'id \<Rightarrow> ('id, 'acc) result" where
  "account_id_try_convert_no_seed hash_decode i = ok_or (hash_decode i) i"

subsection \<open>The invariant of a pool\<close>

definition ids_at :: "('u::len, 'a, 'b) book_map \<Rightarrow> 'u word \<Rightarrow> OrderId set" where
  "ids_at m k = (case m k of None \<Rightarrow> {} | Some tck \<Rightarrow> fst ` set (open_orders tck))"

definition ids_unique :: "('u::len, 'a, 'b) book_map \<Rightarrow> bool" where
  "ids_unique m \<longleftrightarrow> (\<forall>i k k'. i \<in> ids_at m k \<longrightarrow> i \<in> ids_at m k' \<longrightarrow> k = k')"

definition side_ok :: "bool \<Rightarrow> OrderId \<Rightarrow> ('u::len, 'a, 'b) orderbook \<Rightarrow> bool" where
  "side_ok is_bid next t \<longleftrightarrow>
     book_ok t \<and> valid_id next \<and> is_bid_id next = is_bid \<and> ids_unique (tree_map t) \<and>
     (\<forall>k. \<forall>i \<in> ids_at (tree_map t) k. is_bid_id i = is_bid \<and> i < next)"

definition pool_ok :: "('lp, 'u::len, 'a, 'b) book_pool \<Rightarrow> bool" where
  "pool_ok p \<longleftrightarrow>
     side_ok True (pool_next_bid p) (bids p) \<and> side_ok False (pool_next_ask p) (asks p) \<and>
     0 < tick_size p \<and> 0 < lot_size p"

definition pool_total :: "('lp, 'u::len, 'a, 'b) book_pool \<Rightarrow> bool \<Rightarrow> nat" where
  "pool_total p is_bid = book_total (tree_map (get_orderbook p is_bid))"

definition next_id :: "('lp, 'book, 'q) pool \<Rightarrow> bool \<Rightarrow> OrderId" where
  "next_id p is_bid = (if is_bid then pool_next_bid p else pool_next_ask p)"

text \<open>The pools that the operations of the code reach from a new pool.\<close>

inductive pool_reachable :: "('lp, 'u::len, 'a, 'b::plus) book_pool \<Rightarrow> bool" where
  reach_new: "0 < tick \<Longrightarrow> 0 < lot \<Longrightarrow> pool_reachable (pool_new lp fee tick lot pd bd qd)"
| reach_place: "pool_reachable p \<Longrightarrow> pool_place_order cur expiration p b a k q = Ok (r, p') \<Longrightarrow> pool_reachable p'"
| reach_fill: "pool_reachable p \<Longrightarrow> pool_fill_order p b k q = Ok (fills, p') \<Longrightarrow> pool_reachable p'"
| reach_cancel: "pool_reachable p \<Longrightarrow> pool_cancel_order p a k i q = Ok (i', p') \<Longrightarrow> pool_reachable p'"

subsection \<open>What the operations do to the ids of a book\<close>

lemma ids_at_place: "ids_at (place_spec m i a k q e) k' = (if k' = k then insert i (ids_at m k) else ids_at m k')"
  by (auto simp: ids_at_def place_spec_def placed_def tick_new_def set_bt_insert split: option.splits)

lemma ids_at_fill:
  assumes "\<And>tck. m k = Some tck \<Longrightarrow> tick_ok tck"
  shows "ids_at (snd (fill_spec m k q)) k' \<subseteq> ids_at m k'"
proof (cases "m k")
  case (Some tck)
  have "fst ` set (open_orders (fst (filled tck q))) \<subseteq> fst ` set (open_orders tck)"
    using fifo_keys assms [OF Some] by (fastforce simp: tick_ok_def filled_eq_fifo)
  with Some show ?thesis
    by (auto simp: ids_at_def fill_spec_def)
qed (simp add: fill_spec_def)

lemma canceled_ids:
  assumes "canceled tck a i q = Ok tck'"
  shows "fst ` set (open_orders tck') \<subseteq> fst ` set (open_orders tck)"
proof -
  obtain ord where i: "bt_get (open_orders tck) i = Some ord"
    and t: "open_orders tck' = (if order_quantity ord = q then bt_remove i (open_orders tck)
      else bt_insert i (ord\<lparr>order_quantity := order_quantity ord - q\<rparr>) (open_orders tck))"
    using assms by (auto simp: canceled_eq_Ok)
  have "i \<in> fst ` set (open_orders tck)"
    using map_of_SomeD [OF i] by force
  then show ?thesis
    by (auto simp: t set_bt_insert bt_remove_def)
qed

lemma ids_at_cancel:
  assumes "cancel_spec m a k i q = Ok m'"
  shows "ids_at m' k' \<subseteq> ids_at m k'"
proof -
  obtain tck tck' where t: "m k = Some tck" "canceled tck a i q = Ok tck'" "m' = m(k \<mapsto> tck')"
    using assms by (auto simp: cancel_spec_def result_iffs split: option.splits)
  then show ?thesis
    using canceled_ids [OF t(2)] by (simp add: ids_at_def)
qed

lemma place_spec_total:
  assumes "finite (dom m)" "i \<notin> ids_at m k" "\<And>tck. m k = Some tck \<Longrightarrow> tick_ok tck"
  shows "book_total (place_spec m i a k q e) = book_total m + unat q"
proof -
  let ?new = "case m k of Some tck \<Rightarrow> placed tck i a q e | None \<Rightarrow> tick_new i a q e"
  let ?rest = "\<Sum>x \<in> dom m - {k}. tick_total (the (m x))"
  have "book_total (place_spec m i a k q e) = tick_total ?new + ?rest"
    unfolding place_spec_def book_total_def using assms(1)
    by (subst sum.remove [of _ k]) (auto intro!: sum.cong)
  moreover have "book_total m = (case m k of Some tck \<Rightarrow> tick_total tck | None \<Rightarrow> 0) + ?rest"
    unfolding book_total_def using assms(1)
    by (cases "m k") (simp_all add: sum.remove [of "dom m" k] domI domIff)
  moreover have "tick_total ?new = (case m k of Some tck \<Rightarrow> tick_total tck | None \<Rightarrow> 0) + unat q"
  proof (cases "m k")
    case (Some tck)
    then have "\<not> tick_has_id tck i"
      using assms(2) by (force simp: tick_has_id_def ids_at_def dest: map_of_SomeD)
    with Some assms(3) show ?thesis
      by (simp add: placed_total)
  qed (simp add: tick_total_def tick_new_def order_new_def)
  ultimately show ?thesis
    by simp
qed

lemma cancel_spec_total:
  assumes "finite (dom m)" "\<And>tck. m k = Some tck \<Longrightarrow> tick_ok tck" "cancel_spec m a k i q = Ok m'"
  shows "book_total m = book_total m' + unat q"
proof -
  obtain tck tck' where t: "m k = Some tck" "canceled tck a i q = Ok tck'" "m' = m(k \<mapsto> tck')"
    using assms(3) by (auto simp: cancel_spec_def result_iffs split: option.splits)
  let ?rest = "\<Sum>x \<in> dom m - {k}. tick_total (the (m x))"
  have "book_total m = tick_total tck + ?rest" "book_total m' = tick_total tck' + ?rest"
    unfolding book_total_def using t assms(1)
    by (subst sum.remove [of _ k]; auto intro!: sum.cong)+
  then show ?thesis
    using canceled_total [OF assms(2) [OF t(1)] t(2)] by simp
qed

lemma cancel_placed:
  "\<exists>m'. cancel_spec (place_spec m i a k q e) a k i q = Ok m'"
  by (cases "m k") (simp_all add: cancel_spec_def place_spec_def placed_def tick_new_def canceled_def
      order_new_def checked_sub_def)

subsection \<open>One side of a pool\<close>

lemma side_okD:
  "side_ok b n t \<Longrightarrow> book_ok t"
  "side_ok b n t \<Longrightarrow> n \<notin> ids_at (tree_map t) k"
  "side_ok b n t \<Longrightarrow> is_bid_id n = b"
  "side_ok b n t \<Longrightarrow> valid_id n"
  by (auto simp: side_ok_def)

lemma side_ok_shrink:
  assumes "side_ok b n t" "book_ok t'" "\<And>k. ids_at (tree_map t') k \<subseteq> ids_at (tree_map t) k"
  shows "side_ok b n t'"
proof -
  have "k = k'" if "i \<in> ids_at (tree_map t') k" "i \<in> ids_at (tree_map t') k'" for i k k'
    using assms(1) that assms(3) unfolding side_ok_def ids_unique_def by (meson subsetD)
  moreover have "is_bid_id i = b \<and> i < n" if "i \<in> ids_at (tree_map t') k" for i k
    using assms(1) that assms(3) unfolding side_ok_def by (meson subsetD)
  ultimately show ?thesis
    using assms(1,2) by (auto simp: side_ok_def ids_unique_def)
qed

lemma side_ok_new: "side_ok b (order_id_new b) book_new"
  by (simp add: side_ok_def book.ok_new book.book_new order_id_new_side order_id_new_valid ids_unique_def ids_at_def)

lemma side_ok_place:
  assumes "side_ok b n t" "checked_increase n = Some n'" "book_ok t'"
    "tree_map t' = place_spec (tree_map t) n a k q e"
  shows "side_ok b n' t'"
proof -
  have n': "valid_id n'" "is_bid_id n' = b" "n < n'"
    using order_id.increase_valid [OF side_okD(4) [OF assms(1)] assms(2)] side_okD(3) [OF assms(1)]
      order_id.increase_side [OF side_okD(4) [OF assms(1)] assms(2)]
      order_id.increase_less [OF side_okD(4) [OF assms(1)] assms(2)]
    by simp_all
  have "ids_unique (tree_map t')"
    using assms(1) side_okD(2) [OF assms(1)] unfolding assms(4) side_ok_def ids_unique_def
    by (auto simp: ids_at_place)
  moreover have "is_bid_id i = b \<and> i < n'" if "i \<in> ids_at (tree_map t') k'" for i k'
  proof -
    have "i = n \<or> is_bid_id i = b \<and> i < n"
      using that assms(1) unfolding assms(4) side_ok_def by (auto simp: ids_at_place split: if_splits)
    then show ?thesis
      using n'(3) side_okD(3) [OF assms(1)] by (auto intro: less_trans)
  qed
  ultimately show ?thesis
    using n' assms(3) by (simp add: side_ok_def)
qed

lemma side_ok_fill:
  assumes "side_ok b n t" "book_fill_order t k q = Ok (fills, t')"
  shows "side_ok b n t'"
proof -
  note ok = side_okD(1) [OF assms(1)]
  have t': "book_ok t'" "tree_map t' = snd (fill_spec (tree_map t) k q)"
    using book.fill_ok [OF ok, of k q] assms(2) by auto
  show ?thesis
    by (rule side_ok_shrink [OF assms(1) t'(1)]) (simp add: t'(2) ids_at_fill book.ticks_ok [OF ok])
qed

lemma side_ok_cancel:
  assumes "side_ok b n t" "book_cancel_order t a k i q = Ok t'"
  shows "side_ok b n t'"
proof -
  have "\<exists>m. cancel_spec (tree_map t) a k i q = Ok m \<and> book_ok t' \<and> tree_map t' = m"
    using book_cancel_eq [OF side_okD(1) [OF assms(1)], of a k i q] assms(2) by (auto split: result.splits)
  then show ?thesis
    using ids_at_cancel by (elim exE conjE) (rule side_ok_shrink [OF assms(1)], simp_all)
qed

subsection \<open>Both sides\<close>

definition set_side :: "('lp, 'book, 'q) pool \<Rightarrow> bool \<Rightarrow> OrderId \<Rightarrow> 'book \<Rightarrow> ('lp, 'book, 'q) pool" where
  "set_side p b n t =
     (if b then p\<lparr>pool_next_bid := n, bids := t\<rparr> else p\<lparr>pool_next_ask := n, asks := t\<rparr>)"

lemma set_side_sel [simp]:
  "get_orderbook (set_side p b n t) b = t" "get_orderbook (set_side p b n t) (\<not> b) = get_orderbook p (\<not> b)"
  "next_id (set_side p b n t) b = n" "next_id (set_side p b n t) (\<not> b) = next_id p (\<not> b)"
  "tick_size (set_side p b n t) = tick_size p" "lot_size (set_side p b n t) = lot_size p"
  "tick_size (set_side p (\<not> b) n t) = tick_size p" "lot_size (set_side p (\<not> b) n t) = lot_size p"
  "get_orderbook (set_side p (\<not> b) n t) b = get_orderbook p b"
  by (auto simp: set_side_def get_orderbook_def next_id_def)

lemma pool_ok_iff:
  "pool_ok p \<longleftrightarrow> side_ok b (next_id p b) (get_orderbook p b)
     \<and> side_ok (\<not> b) (next_id p (\<not> b)) (get_orderbook p (\<not> b)) \<and> 0 < tick_size p \<and> 0 < lot_size p"
  by (cases b) (auto simp: pool_ok_def next_id_def get_orderbook_def)

lemma pool_ok_side: "pool_ok p \<Longrightarrow> side_ok b (next_id p b) (get_orderbook p b)"
  using pool_ok_iff [of p b] by blast

lemma pool_ok_set_side: "pool_ok p \<Longrightarrow> side_ok b n t \<Longrightarrow> pool_ok (set_side p b n t)"
  by (subst pool_ok_iff [of _ b]) (simp add: pool_ok_iff [of p b])

lemma pool_place_eq:
  "pool_place_order cur expiration p b a k q =
     and_then (ok_or (checked_increase (next_id p b)) Overflow) (\<lambda>n.
     and_then (map_err (\<lambda>_. ErrorOnPlaceOrder)
       (book_place_order (get_orderbook p b) (next_id p b) a k q (cur + expiration))) (\<lambda>t.
     Ok ((k, next_id p b), set_side p b n t)))"
  by (cases "checked_increase (next_id p b)")
    (auto simp: pool_place_order_def next_bid_order_id_def next_ask_order_id_def next_id_def get_orderbook_def set_side_def)

lemma pool_fill_eq:
  "pool_fill_order p b k q =
     and_then (map_err (\<lambda>_. ErrorOnFillOrder) (book_fill_order (get_orderbook p (\<not> b)) k q)) (\<lambda>(r, t).
     Ok (r, set_side p (\<not> b) (next_id p (\<not> b)) t))"
  by (auto simp: pool_fill_order_def next_id_def get_orderbook_def set_side_def)

lemma pool_cancel_eq:
  "pool_cancel_order p a k i q =
     and_then (map_err (\<lambda>_. ErrorOnCancelOrder) (book_cancel_order (get_orderbook p (is_bid_id i)) a k i q)) (\<lambda>t.
     Ok (i, set_side p (is_bid_id i) (next_id p (is_bid_id i)) t))"
  by (auto simp: pool_cancel_order_def next_id_def get_orderbook_def set_side_def)

lemma pool_ok_new: "0 < tick \<Longrightarrow> 0 < lot \<Longrightarrow> pool_ok (pool_new lp fee tick lot pd bd qd)"
  by (simp add: pool_ok_def pool_new_def side_ok_new)

lemma pool_place_ok:
  assumes "pool_ok p"
  shows "case checked_increase (next_id p b) of
      None \<Rightarrow> pool_place_order cur expiration p b a k q = Err Overflow
    | Some n \<Rightarrow>
        if book_full (get_orderbook p b) \<and> k \<notin> dom (tree_map (get_orderbook p b))
        then pool_place_order cur expiration p b a k q = Err ErrorOnPlaceOrder
        else \<exists>p'. pool_place_order cur expiration p b a k q = Ok ((k, next_id p b), p') \<and> pool_ok p'
          \<and> next_id p' b = n \<and> next_id p b \<notin> ids_at (tree_map (get_orderbook p b)) k'
          \<and> tree_map (get_orderbook p' b) =
              place_spec (tree_map (get_orderbook p b)) (next_id p b) a k q (cur + expiration)
          \<and> get_orderbook p' (\<not> b) = get_orderbook p (\<not> b)
          \<and> pool_total p' b = pool_total p b + unat q"
proof (cases "checked_increase (next_id p b)")
  case (Some n)
  let ?t = "get_orderbook p b" and ?e = "cur + expiration"
  note side = pool_ok_side [OF assms, of b] and ok = side_okD(1) [OF pool_ok_side [OF assms, of b]]
  show ?thesis
  proof (cases "book_full ?t \<and> k \<notin> dom (tree_map ?t)")
    case True
    then show ?thesis
      using Some book_place_full [OF ok] by (simp add: pool_place_eq)
  next
    case False
    then obtain t where t: "book_place_order ?t (next_id p b) a k q ?e = Ok t" "book_ok t"
        "tree_map t = place_spec (tree_map ?t) (next_id p b) a k q ?e"
      using book.place_ok [OF ok, of k "next_id p b" a q ?e] by (auto simp: domIff)
    have "pool_ok (set_side p b n t)"
      by (rule pool_ok_set_side [OF assms side_ok_place [OF side Some t(2,3)]])
    moreover have "pool_total (set_side p b n t) b = pool_total p b + unat q"
      using place_spec_total [OF book.finite_book [OF ok] side_okD(2) [OF side] book.ticks_ok [OF ok]]
      by (simp add: pool_total_def t(3))
    ultimately show ?thesis
      using Some False t side_okD(2) [OF side] by (simp add: pool_place_eq)
  qed
qed (simp add: pool_place_eq)

lemma pool_ok_place: "pool_ok p \<Longrightarrow> pool_place_order cur expiration p b a k q = Ok (r, p') \<Longrightarrow> pool_ok p'"
  using pool_place_ok [where p = p and b = b and cur = cur and expiration = expiration and a = a and k = k and q = q and k' = k]
  by (auto split: option.splits if_splits)

lemma pool_ok_fill: "pool_ok p \<Longrightarrow> pool_fill_order p b k q = Ok (r, p') \<Longrightarrow> pool_ok p'"
  by (auto simp: pool_fill_eq result_iffs intro!: pool_ok_set_side intro: side_ok_fill pool_ok_side)

lemma pool_ok_cancel: "pool_ok p \<Longrightarrow> pool_cancel_order p a k i q = Ok (r, p') \<Longrightarrow> pool_ok p'"
  by (auto simp: pool_cancel_eq result_iffs intro!: pool_ok_set_side intro: side_ok_cancel pool_ok_side)

lemma pool_reachable_ok: "pool_reachable p \<Longrightarrow> pool_ok p"
  by (induction rule: pool_reachable.induct)
    (auto intro: pool_ok_new pool_ok_place pool_ok_fill pool_ok_cancel)

lemma pool_place_then_cancel:
  assumes "pool_ok p" "pool_place_order cur expiration p b a k q = Ok ((k', i), p')"
  shows "\<exists>p''. pool_cancel_order p' a k i q = Ok (i, p'') \<and> pool_ok p'' \<and> pool_total p'' b = pool_total p b
    \<and> get_orderbook p'' (\<not> b) = get_orderbook p (\<not> b)"
proof -
  let ?m = "tree_map (get_orderbook p b)" and ?m' = "tree_map (get_orderbook p' b)"
  have p': "pool_ok p'" "i = next_id p b" "?m' = place_spec ?m i a k q (cur + expiration)"
      "pool_total p' b = pool_total p b + unat q" "get_orderbook p' (\<not> b) = get_orderbook p (\<not> b)"
    using pool_place_ok [where p = p and b = b and cur = cur and expiration = expiration and a = a and k = k and q = q and k' = k]
      assms by (auto split: option.splits if_splits)
  have b: "is_bid_id i = b"
    using side_okD(3) [OF pool_ok_side [OF assms(1)]] p'(2) by simp
  note ok = side_okD(1) [OF pool_ok_side [OF p'(1), of b]]
  obtain m' where m': "cancel_spec ?m' a k i q = Ok m'"
    using cancel_placed p'(3) by metis
  then obtain t where t: "book_cancel_order (get_orderbook p' b) a k i q = Ok t" "book_ok t" "tree_map t = m'"
    using book.cancel_ok [OF ok] by blast
  let ?p = "set_side p' b (next_id p' b) t"
  have c: "pool_cancel_order p' a k i q = Ok (i, ?p)"
    using t(1) b by (simp add: pool_cancel_eq)
  moreover have "pool_total p' b = pool_total ?p b + unat q"
    using cancel_spec_total [OF book.finite_book [OF ok] book.ticks_ok [OF ok] m'] t(3)
    by (simp add: pool_total_def)
  ultimately show ?thesis
    using p' pool_ok_cancel [OF p'(1) c] by simp
qed

subsection \<open>The interface of a pool locator\<close>

locale pool_locator =
  fixes pool_id :: "'asset \<Rightarrow> 'asset \<Rightarrow> (unit, 'asset \<times> 'asset) result"
  assumes returns: "pool_id a b = Err () \<or> (\<exists>i. pool_id a b = Ok i)"
    and same_asset: "pool_id a a = Err ()"
    and of_pair: "pool_id a b = Ok i \<Longrightarrow> i = (a, b) \<or> i = (b, a)"
begin

lemma distinct_assets: "pool_id a b = Ok (x, y) \<Longrightarrow> x \<noteq> y"
  using of_pair [of a b "(x, y)"] same_asset by auto

lemma same_pair: "pool_id a b = Ok i \<Longrightarrow> pool_id c d = Ok i \<Longrightarrow> {a, b} = {c, d}"
  using of_pair [of a b i] of_pair [of c d i] by auto

lemma address_err: "pool_id a b = Err () \<Longrightarrow> pool_address pool_id address a b = Err ()"
  by (simp add: pool_address_def)

end

locale symmetric_pool_locator = pool_locator +
  assumes symmetric: "pool_id a b = pool_id b a"
begin

lemma one_pool_per_pair: "pool_id a b = Ok i \<Longrightarrow> pool_id c d = Ok j \<Longrightarrow> {a, b} = {c, d} \<Longrightarrow> i = j"
  using symmetric by (auto simp: doubleton_eq_iff)

lemma address_symmetric: "pool_address pool_id address a b = pool_address pool_id address b a"
  using symmetric [of a b] by (simp add: pool_address_def)

end

interpretation base_quote: pool_locator base_quote_pool_id
  by unfold_locales (auto simp: base_quote_pool_id_def split: if_splits)

interpretation with_first_asset: symmetric_pool_locator "with_first_asset_pool_id first"
  by unfold_locales (auto simp: with_first_asset_pool_id_def split: if_splits)

interpretation ascending: symmetric_pool_locator ascending_pool_id
  by unfold_locales (auto simp: ascending_pool_id_def split: if_splits)

lemma chain_locator:
  assumes "symmetric_pool_locator f" "symmetric_pool_locator g"
  shows "symmetric_pool_locator (chain_pool_id f g)"
proof -
  have f: "f a b = Err () \<or> (\<exists>i. f a b = Ok i)" "f a a = Err ()" "f a b = Ok i \<Longrightarrow> i = (a, b) \<or> i = (b, a)"
      "f a b = f b a" for a b i
    using pool_locator.returns pool_locator.same_asset pool_locator.of_pair symmetric_pool_locator.symmetric
      symmetric_pool_locator.axioms(1) assms(1) by (metis (no_types))+
  have g: "g a b = Err () \<or> (\<exists>i. g a b = Ok i)" "g a a = Err ()" "g a b = Ok i \<Longrightarrow> i = (a, b) \<or> i = (b, a)"
      "g a b = g b a" for a b i
    using pool_locator.returns pool_locator.same_asset pool_locator.of_pair symmetric_pool_locator.symmetric
      symmetric_pool_locator.axioms(1) assms(2) by (metis (no_types))+
  show ?thesis
    using f g unfolding chain_pool_id_def result_or_def
    by unfold_locales (auto split: result.splits, (metis result.distinct result.inject)+)
qed

interpretation chain: symmetric_pool_locator "chain_pool_id (with_first_asset_pool_id first) ascending_pool_id"
  by (rule chain_locator) unfold_locales

subsection \<open>Properties\<close>

text \<open>A pool with a bid and an ask, for the concrete instances below.\<close>

definition sample_pool :: "(nat, 8, nat, nat) book_pool" where
  "sample_pool =
     (case and_then (pool_place_order 5 10 (pool_new 0 0 2 1 0 0 0) True 1 20 5) (\<lambda>(_, p).
           pool_place_order 5 10 p False 2 30 7) of
        Ok (_, p) \<Rightarrow> p
      | _ \<Rightarrow> pool_new 0 0 2 1 0 0 0)"

lemma sample_pool_reachable: "pool_reachable sample_pool"
proof -
  let ?p = "pool_new 0 0 2 1 0 0 0 :: (nat, 8, nat, nat) book_pool"
  have new: "pool_reachable ?p"
    by (rule reach_new) simp_all
  have "case and_then (pool_place_order 5 10 ?p True 1 20 5) (\<lambda>(_, p). pool_place_order 5 10 p False 2 30 7) of
      Ok (_, p) \<Rightarrow> pool_reachable p | _ \<Rightarrow> True"
    by (auto simp: and_then_eq_Ok split: result.splits intro: reach_place [OF reach_place [OF new]])
  then show ?thesis
    unfolding sample_pool_def using new by (auto split: result.splits prod.splits)
qed

lemma sample_pool_facts:
  "checked_increase (next_id sample_pool True) = Some (OrderId 2)"
  "next_id sample_pool True = OrderId 1"
  "\<not> book_full (get_orderbook sample_pool True)"
  by code_simp+

text \<open>
  In every pool that the operations reach from a new pool, both books are well-formed, every
  open bid carries a bid id and every open ask an ask id, all of them older than the next id to be
  issued, and no id is open at two prices.
\<close>

theorem reachable_pools_keep_ids_unique:
  assumes "pool_reachable p"
  shows "book_ok (get_orderbook p b) \<and> ids_unique (tree_map (get_orderbook p b))
    \<and> (\<forall>i. i \<in> ids_at (tree_map (get_orderbook p b)) k \<longrightarrow> is_bid_id i = b \<and> i < next_id p b)"
  using pool_ok_side [OF pool_reachable_ok [OF assms], of b] by (auto simp: side_ok_def)

theorem reachable_pools_keep_ids_unique_witness:
  "pool_reachable sample_pool \<and> OrderId 0 \<in> ids_at (tree_map (get_orderbook sample_pool True)) 20
    \<and> OrderId 0 < next_id sample_pool True"
proof -
  have "OrderId 0 \<in> ids_at (tree_map (get_orderbook sample_pool True)) 20"
    unfolding ids_at_def by code_simp
  then show ?thesis
    using reachable_pools_keep_ids_unique [OF sample_pool_reachable, of True 20] sample_pool_reachable by blast
qed

text \<open>
  C22. Placing an order in a pool, on every branch: \<open>Overflow\<close> when the ids of the side are used up,
  \<open>ErrorOnPlaceOrder\<close> when a new level does not fit, and otherwise the order is appended under an id
  that no open order of the side has, the open quantity of the side grows by the quantity of the order,
  the other side is untouched and the invariant is kept.
\<close>

theorem pool_place_order_on_every_branch:
  assumes "pool_ok p"
  shows "case checked_increase (next_id p b) of
      None \<Rightarrow> pool_place_order cur expiration p b a k q = Err Overflow
    | Some n \<Rightarrow>
        if book_full (get_orderbook p b) \<and> k \<notin> dom (tree_map (get_orderbook p b))
        then pool_place_order cur expiration p b a k q = Err ErrorOnPlaceOrder
        else \<exists>p'. pool_place_order cur expiration p b a k q = Ok ((k, next_id p b), p') \<and> pool_ok p'
          \<and> next_id p' b = n \<and> next_id p b \<notin> ids_at (tree_map (get_orderbook p b)) k'
          \<and> tree_map (get_orderbook p' b) =
              place_spec (tree_map (get_orderbook p b)) (next_id p b) a k q (cur + expiration)
          \<and> get_orderbook p' (\<not> b) = get_orderbook p (\<not> b)
          \<and> pool_total p' b = pool_total p b + unat q"
  using assms by (rule pool_place_ok)

theorem pool_place_order_on_every_branch_witness:
  "pool_ok sample_pool \<and> (\<exists>p'. pool_place_order 7 10 sample_pool True 3 20 4 = Ok ((20, OrderId 1), p')
    \<and> pool_total p' True = pool_total sample_pool True + 4)"
  using pool_place_order_on_every_branch [OF pool_reachable_ok [OF sample_pool_reachable],
      where b = True and cur = 7 and expiration = 10 and a = 3 and k = 20 and q = 4 and k' = 20]
    pool_reachable_ok [OF sample_pool_reachable] sample_pool_facts
  by auto

text \<open>
  C23. Placing and cancelling are inverse for the open quantity: an order that was just placed can be
  cancelled in full by its owner, which restores the open quantity of the side and leaves the other
  side as it was.
\<close>

theorem place_then_cancel_restores_total:
  assumes "pool_ok p" "pool_place_order cur expiration p b a k q = Ok ((k', i), p')"
  shows "\<exists>p''. pool_cancel_order p' a k i q = Ok (i, p'') \<and> pool_ok p'' \<and> pool_total p'' b = pool_total p b
    \<and> get_orderbook p'' (\<not> b) = get_orderbook p (\<not> b)"
  using assms by (rule pool_place_then_cancel)

theorem place_then_cancel_restores_total_witness:
  "\<exists>p' p''. pool_place_order 7 10 sample_pool True 3 20 4 = Ok ((20, OrderId 1), p')
    \<and> pool_cancel_order p' 3 20 (OrderId 1) 4 = Ok (OrderId 1, p'') \<and> pool_total p'' True = pool_total sample_pool True"
proof -
  note ok = pool_reachable_ok [OF sample_pool_reachable]
  obtain p' where p': "pool_place_order 7 10 sample_pool True 3 20 4 = Ok ((20, OrderId 1), p')"
    using pool_place_ok [OF ok, where b = True and cur = 7 and expiration = 10 and a = 3 and k = 20 and q = 4 and k' = 20]
      sample_pool_facts by auto
  then show ?thesis
    using place_then_cancel_restores_total [OF ok p'] by blast
qed

text \<open>
  Pool locators: whatever the pair, a locator answers with an id made of the two assets or with an
  error, and never for a pair of equal assets. \<open>WithFirstAsset\<close>, \<open>Ascending\<close> and their chain give the
  same pool for both orders of a pair, as the trait documents; \<open>BaseQuoteAsset\<close>, the locator of the
  runtime, gives two different pools for the two orders of every pair of distinct assets.
\<close>

theorem locators_and_order_of_pair:
  "with_first_asset_pool_id first a b = with_first_asset_pool_id first b a
   \<and> ascending_pool_id a b = ascending_pool_id b a
   \<and> chain_pool_id (with_first_asset_pool_id first) ascending_pool_id a b =
       chain_pool_id (with_first_asset_pool_id first) ascending_pool_id b a
   \<and> (base_quote_pool_id a b = base_quote_pool_id b a \<longleftrightarrow> a = b)
   \<and> base_quote_pool_id a a = Err ()"
  using with_first_asset.symmetric ascending.symmetric chain.symmetric base_quote.same_asset
  by (auto simp: base_quote_pool_id_def)

end
