(* ===== verification/Pricing.thy ===== *)
theory Pricing
  imports Pools
begin

text \<open>
  The arithmetic of the pools (\<open>pallets/hybrid-orderbook/src/lib.rs\<close>, \<open>quote\<close>, \<open>mul_div\<close>,
  \<open>get_amount_out\<close>, \<open>get_amount_in\<close>, \<open>calc_lp_amount_for_zero_supply\<close>, \<open>pool_price\<close>,
  \<open>find_max_swap_quantity\<close>, and \<open>Normalize\<close> of \<open>types.rs\<close>), at the widths of the runtime:
  \<open>Unit\<close> is \<open>u128\<close> and \<open>HigherPrecisionUnit\<close> is \<open>U256\<close>. The integer square root of \<open>U256\<close>
  is a parameter. The lemmas give the exact value and the exact overflow condition of every
  formula over the natural numbers, the constant-product law, and what the search for the swap
  quantity returns, when it terminates and when it does not.
\<close>

type_synonym amount = "128 word"

type_synonym higher = "256 word"

type_synonym ('lp, 'a) pallet_pool = "('lp, 128, 'a, 32 word) book_pool"

subsection \<open>Decimals\<close>

text \<open>\<open>10u64.pow\<close> wraps around in a release build.\<close>

definition normalize :: "amount \<Rightarrow> 8 word option \<Rightarrow> amount" where
  "normalize x adjustment =
     (let factor = (10 :: 64 word) ^ (case adjustment of None \<Rightarrow> 0 | Some d \<Rightarrow> unat d)
      in x * ucast factor)"

definition denom :: "amount \<Rightarrow> 8 word \<Rightarrow> ('e, amount) result" where
  "denom x adjustment = div_word x (ucast ((10 :: 64 word) ^ unat adjustment))"

subsection \<open>Formulas\<close>

definition try_into_unit :: "higher \<Rightarrow> (pallet_error, amount) result" where
  "try_into_unit x = (if unat x < 2 ^ 128 then Ok (ucast x) else Err Overflow)"

lemma try_into_unit_code [code]:
  "try_into_unit x = (if uint x < 2 ^ 128 then Ok (ucast x) else Err Overflow)"
  using of_nat_less_iff [of "unat x" "2 ^ 128", where 'a = int] by (simp add: try_into_unit_def)

definition mul_div :: "amount \<Rightarrow> amount \<Rightarrow> amount \<Rightarrow> (pallet_error, amount) result" where
  "mul_div a b c =
     and_then (ok_or (checked_mul (ucast a :: higher) (ucast b)) Overflow) (\<lambda>ab.
     and_then (ok_or (checked_div ab (ucast c)) Overflow) (\<lambda>result.
     try_into_unit result))"

definition quote :: "amount \<Rightarrow> amount \<Rightarrow> amount \<Rightarrow> (pallet_error, amount) result" where
  "quote amount reserve1 reserve2 = mul_div amount reserve2 reserve1"

definition calc_lp_amount_for_zero_supply ::
  "(higher \<Rightarrow> higher) \<Rightarrow> amount \<Rightarrow> amount \<Rightarrow> amount \<Rightarrow> (pallet_error, amount) result"
where
  "calc_lp_amount_for_zero_supply integer_sqrt mint_min_liquidity amount1 amount2 =
     and_then (ok_or (checked_mul (ucast amount1 :: higher) (ucast amount2)) Overflow) (\<lambda>product.
     and_then (ok_or (checked_sub (integer_sqrt product) (ucast mint_min_liquidity))
       InsufficientLiquidityMinted) (\<lambda>result.
     try_into_unit result))"

text \<open>The plain subtraction \<open>1000 - LPFee\<close> of \<open>U256\<close> panics on underflow.\<close>

definition fee_factor :: "32 word \<Rightarrow> ('e, higher) result" where
  "fee_factor lp_fee = (if 1000 < lp_fee then Panic else Ok (1000 - ucast lp_fee))"

definition get_amount_out :: "32 word \<Rightarrow> amount \<Rightarrow> amount \<Rightarrow> amount \<Rightarrow> (pallet_error, amount) result" where
  "get_amount_out lp_fee amount_in reserve_in reserve_out =
     (if reserve_in = 0 \<or> reserve_out = 0 then Err ZeroLiquidity
      else
        and_then (fee_factor lp_fee) (\<lambda>factor.
        and_then (ok_or (checked_mul (ucast amount_in) factor) Overflow) (\<lambda>amount_in_with_fee.
        and_then (ok_or (checked_mul amount_in_with_fee (ucast reserve_out)) Overflow) (\<lambda>numerator.
        and_then (ok_or (checked_mul (ucast reserve_in) 1000) Overflow) (\<lambda>scaled.
        and_then (ok_or (checked_add scaled amount_in_with_fee) Overflow) (\<lambda>denominator.
        and_then (ok_or (checked_div numerator denominator) Overflow) (\<lambda>result.
        try_into_unit result)))))))"

definition get_amount_in :: "32 word \<Rightarrow> amount \<Rightarrow> amount \<Rightarrow> amount \<Rightarrow> (pallet_error, amount) result" where
  "get_amount_in lp_fee amount_out reserve_in reserve_out =
     (if reserve_in = 0 \<or> reserve_out = 0 then Err ZeroLiquidity
      else if reserve_out \<le> amount_out then Err AmountOutTooHigh
      else
        and_then (ok_or (checked_mul (ucast reserve_in :: higher) (ucast amount_out)) Overflow) (\<lambda>product.
        and_then (ok_or (checked_mul product 1000) Overflow) (\<lambda>numerator.
        and_then (ok_or (checked_sub (ucast reserve_out) (ucast amount_out)) Overflow) (\<lambda>left.
        and_then (fee_factor lp_fee) (\<lambda>factor.
        and_then (ok_or (checked_mul left factor) Overflow) (\<lambda>denominator.
        and_then (ok_or (checked_div numerator denominator) Overflow) (\<lambda>quotient.
        and_then (ok_or (checked_add quotient 1) Overflow) (\<lambda>result.
        try_into_unit result))))))))"

subsection \<open>Prices of a pool\<close>

definition pool_price :: "('lp, 'book, 'q) pool \<Rightarrow> amount \<Rightarrow> amount \<Rightarrow> (pallet_error, amount) result" where
  "pool_price p base_reserve quote_reserve =
     (let (p_adj, b_adj, q_adj) = decimal_adjustment p;
          base_norm = normalize base_reserve b_adj;
          quote_norm = normalize quote_reserve q_adj
      in quote (normalize 1 p_adj) base_norm quote_norm)"

text \<open>The price after \<open>mid\<close> of the base asset is swapped, as the loop below computes it.\<close>

definition price_after ::
  "32 word \<Rightarrow> bool \<Rightarrow> ('lp, 'book, 'q) pool \<Rightarrow> amount \<Rightarrow> amount \<Rightarrow> amount \<Rightarrow> (pallet_error, amount) result"
where
  "price_after lp_fee is_bid p b_r q_r mid =
     (let (p_adj, b_adj, q_adj) = decimal_adjustment p
      in if is_bid then
           and_then (get_amount_in lp_fee mid q_r b_r) (\<lambda>amount_in.
           quote (normalize 1 p_adj) (normalize (b_r - mid) b_adj) (normalize (q_r + amount_in) q_adj))
         else
           and_then (get_amount_out lp_fee mid b_r q_r) (\<lambda>amount_out.
           quote (normalize 1 p_adj) (normalize (b_r + mid) b_adj) (normalize (q_r - amount_out) q_adj)))"

text \<open>
  The binary search of \<open>find_max_swap_quantity\<close>, with the price after a swap as a function of the
  swapped quantity and \<open>one_normalized\<close> as the step: \<^const>\<open>None\<close> is a loop that never ends.
\<close>

partial_function (option) search_loop ::
  "(amount \<Rightarrow> (pallet_error, amount) result) \<Rightarrow> bool \<Rightarrow> amount \<Rightarrow> amount \<Rightarrow> amount \<Rightarrow> amount \<Rightarrow> amount
    \<Rightarrow> (pallet_error, amount) result option"
where
  "search_loop price is_bid target one_normalized min_q max_q swap_quantity =
     (if min_q < max_q then
        (let mid = (min_q + max_q + 1) div 2
         in case price mid of
              Ok cur_price \<Rightarrow>
                if cur_price = target then Some (Ok mid)
                else if cur_price < target then
                  (if is_bid then search_loop price is_bid target one_normalized (mid + one_normalized) max_q mid
                   else search_loop price is_bid target one_normalized min_q (mid - one_normalized) mid)
                else
                  (if is_bid then search_loop price is_bid target one_normalized min_q (mid - one_normalized) swap_quantity
                   else search_loop price is_bid target one_normalized (mid + one_normalized) max_q swap_quantity)
            | Err e \<Rightarrow> Some (Err e)
            | Panic \<Rightarrow> Some Panic
            | Diverge \<Rightarrow> None)
      else Some (Ok swap_quantity))"

lemmas search_loop_code [code] = search_loop.simps

text \<open>\<open>find_max_swap_quantity\<close> on the reserves that \<open>get_reserves\<close> returned.\<close>

definition max_swap_quantity ::
  "32 word \<Rightarrow> bool \<Rightarrow> amount \<Rightarrow> ('lp, 'book, 'q) pool \<Rightarrow> amount \<Rightarrow> amount \<Rightarrow> amount \<Rightarrow> (pallet_error, amount) result"
where
  "max_swap_quantity lp_fee is_bid target p b_r q_r remain_orders =
     loop_outcome (search_loop (price_after lp_fee is_bid p b_r q_r) is_bid target
       (normalize 1 (Some (base_decimals p))) 0 remain_orders 0)"

subsection \<open>The formulas over the natural numbers\<close>

text \<open>The words of the two widths with a given value.\<close>

definition to_unit :: "nat \<Rightarrow> amount" where
  "to_unit n = of_nat n"

definition to_higher :: "nat \<Rightarrow> higher" where
  "to_higher n = of_nat n"

lemma unat_to_higher: "n < 2 ^ 256 \<Longrightarrow> unat (to_higher n) = n"
  by (simp add: to_higher_def unat_of_nat)

lemma unat_to_unit: "n < 2 ^ 128 \<Longrightarrow> unat (to_unit n) = n"
  by (simp add: to_unit_def unat_of_nat)

lemma to_unit_unat [simp]: "to_unit (unat x) = x"
  by (simp add: to_unit_def)

lemma unat_amount_less: "unat x < 2 ^ 128" for x :: amount
  using unsigned_less [of x] by simp

lemma unat_ucast_higher [simp]: "unat (ucast x :: higher) = unat x" for x :: amount
  using unat_amount_less [of x] by (simp add: unsigned_ucast_eq take_bit_nat_eq_self)

lemma checked_nat:
  fixes x y :: higher
  shows "checked_mul x y = (if unat x * unat y < 2 ^ 256 then Some (to_higher (unat x * unat y)) else None)"
    "checked_add x y = (if unat x + unat y < 2 ^ 256 then Some (to_higher (unat x + unat y)) else None)"
    "checked_sub x y = (if unat y \<le> unat x then Some (to_higher (unat x - unat y)) else None)"
    "checked_div x y = (if unat y = 0 then None else Some (to_higher (unat x div unat y)))"
  by (auto simp: checked_mul_def checked_add_def checked_sub_def checked_div_def word_le_nat_alt
      unat_eq_zero word_arith_nat_div of_nat_diff to_higher_def)

lemma try_into_unit_nat: "n < 2 ^ 256 \<Longrightarrow> try_into_unit (to_higher n) = (if n < 2 ^ 128 then Ok (to_unit n) else Err Overflow)"
  by (simp add: try_into_unit_def unat_to_higher word_unat_eq_iff unat_to_unit unsigned_ucast_eq take_bit_eq_mod)

lemma fee_factor_nat:
  assumes "lp_fee \<le> 1000"
  shows "fee_factor lp_fee = Ok (to_higher (1000 - unat lp_fee))"
proof -
  have "unat lp_fee \<le> 1000"
    using assms by (simp add: word_le_nat_alt)
  then show ?thesis
    using assms by (simp add: fee_factor_def not_less to_higher_def of_nat_diff)
qed

lemma amounts_bound:
  fixes a b :: amount
  shows "unat a * unat b < 2 ^ 256" "k \<le> 1000 \<Longrightarrow> unat a * k < 2 ^ 138"
proof -
  have "unat a * unat b < 2 ^ 128 * 2 ^ 128"
    using unat_amount_less [of a] unat_amount_less [of b] by (intro mult_strict_mono') auto
  then show "unat a * unat b < 2 ^ 256"
    by simp
  assume "k \<le> 1000"
  then have "unat a * k \<le> 2 ^ 128 * 1000"
    using unat_amount_less [of a] by (intro mult_mono) auto
  then show "unat a * k < 2 ^ 138"
    by simp
qed

lemma mul_div_nat:
  "mul_div a b c =
     (if c = 0 \<or> 2 ^ 128 \<le> unat a * unat b div unat c then Err Overflow
      else Ok (to_unit (unat a * unat b div unat c)))"
proof -
  have "unat a * unat b div unat c < 2 ^ 256"
    using amounts_bound(1) [of a b] by (rule le_less_trans [OF div_le_dividend])
  then show ?thesis
    using amounts_bound(1) [of a b]
    by (simp add: mul_div_def checked_nat unat_to_higher try_into_unit_nat unat_eq_zero)
qed

lemma get_amount_out_nat:
  fixes amount_in reserve_in reserve_out :: amount
  assumes "lp_fee \<le> 1000"
  defines "n \<equiv> unat amount_in * (1000 - unat lp_fee)"
  shows "get_amount_out lp_fee amount_in reserve_in reserve_out =
     (if reserve_in = 0 \<or> reserve_out = 0 then Err ZeroLiquidity
      else if 2 ^ 256 \<le> n * unat reserve_out then Err Overflow
      else Ok (to_unit (n * unat reserve_out div (unat reserve_in * 1000 + n))))"
proof (cases "reserve_in = 0 \<or> reserve_out = 0 \<or> 2 ^ 256 \<le> n * unat reserve_out")
  case False
  have n: "n < 2 ^ 138" and d: "unat reserve_in * 1000 < 2 ^ 138"
    unfolding n_def by (rule amounts_bound(2), simp)+
  let ?d = "unat reserve_in * 1000 + n"
  have d0: "0 < ?d"
    using False by (simp add: unat_gt_0)
  have le: "n * unat reserve_out div ?d \<le> unat reserve_out"
  proof -
    have "n * unat reserve_out div ?d \<le> ?d * unat reserve_out div ?d"
      by (intro div_le_mono mult_right_mono) simp_all
    then show ?thesis
      using d0 by (auto split: if_splits)
  qed
  then have "n * unat reserve_out div ?d < 2 ^ 128"
    using unat_amount_less [of reserve_out] by linarith
  then show ?thesis
    using False n d d0 assms(1)
    by (simp add: get_amount_out_def fee_factor_nat checked_nat unat_to_higher try_into_unit_nat n_def [symmetric])
next
  case True
  have "n < 2 ^ 138"
    unfolding n_def by (rule amounts_bound(2)) simp
  with True assms(1) show ?thesis
    by (auto simp: get_amount_out_def fee_factor_nat checked_nat unat_to_higher n_def [symmetric])
qed

lemma get_amount_in_nat:
  fixes amount_out reserve_in reserve_out :: amount
  assumes "lp_fee \<le> 1000"
  defines "n \<equiv> unat reserve_in * unat amount_out * 1000"
    and "d \<equiv> (unat reserve_out - unat amount_out) * (1000 - unat lp_fee)"
  shows "get_amount_in lp_fee amount_out reserve_in reserve_out =
     (if reserve_in = 0 \<or> reserve_out = 0 then Err ZeroLiquidity
      else if reserve_out \<le> amount_out then Err AmountOutTooHigh
      else if 2 ^ 256 \<le> n \<or> d = 0 \<or> 2 ^ 128 \<le> n div d + 1 then Err Overflow
      else Ok (to_unit (n div d + 1)))"
proof (cases "reserve_in = 0 \<or> reserve_out = 0 \<or> reserve_out \<le> amount_out")
  case False
  define m where "m = unat reserve_in * unat amount_out"
  have n: "n = m * 1000" and p: "m < 2 ^ 256"
    by (simp_all only: n_def m_def amounts_bound(1))
  have l: "unat amount_out \<le> unat reserve_out" "unat reserve_out - unat amount_out < 2 ^ 128"
    using False unat_amount_less [of reserve_out] by (simp_all add: word_le_nat_alt)
  have "d \<le> unat reserve_out * (1000 - unat lp_fee)"
    unfolding d_def by (intro mult_right_mono) simp_all
  then have d: "d < 2 ^ 138"
    using amounts_bound(2) [of "1000 - unat lp_fee" reserve_out] by simp
  show ?thesis
  proof (cases "n < 2 ^ 256")
    case True
    then have q: "n div d < 2 ^ 256"
      by (rule le_less_trans [OF div_le_dividend])
    have "get_amount_in lp_fee amount_out reserve_in reserve_out =
        and_then (ok_or (checked_div (to_higher n) (to_higher d)) Overflow) (\<lambda>quotient.
        and_then (ok_or (checked_add quotient 1) Overflow) try_into_unit)"
      using False True assms(1) p l d unfolding n d_def
      by (simp add: get_amount_in_def fee_factor_nat checked_nat unat_to_higher m_def [symmetric])
    with False True d q show ?thesis
      by (auto simp: checked_nat unat_to_higher try_into_unit_nat)
  next
    case False
    with \<open>\<not> (reserve_in = 0 \<or> _)\<close> p show ?thesis
      unfolding n by (simp add: get_amount_in_def checked_nat unat_to_higher m_def [symmetric])
  qed
qed (auto simp: get_amount_in_def)

subsection \<open>The constant-product law\<close>

lemma swap_out_law:
  fixes a f r_in r_out :: nat
  defines "out \<equiv> a * f * r_out div (r_in * 1000 + a * f)"
  assumes "f \<le> 1000" "0 < r_in" "0 < r_out"
  shows "out < r_out" "r_in * r_out \<le> (r_in + a) * (r_out - out)"
proof -
  let ?d = "r_in * 1000 + a * f"
  have "a * f * r_out < r_out * ?d"
    using assms(3,4) by (simp add: algebra_simps)
  then show less: "out < r_out"
    unfolding out_def by (simp add: less_mult_imp_div_less)
  then obtain k where k: "r_out = out + k"
    using less_imp_add_positive by blast
  have "out * ?d \<le> a * f * r_out"
    unfolding out_def by (rule div_times_less_eq_dividend)
  then have "1000 * (r_in * out) \<le> f * (a * k)"
    unfolding k by (simp add: algebra_simps)
  also have "\<dots> \<le> 1000 * (a * k)"
    using assms(2) by (rule mult_right_mono) simp
  finally show "r_in * r_out \<le> (r_in + a) * (r_out - out)"
    unfolding k by (simp add: algebra_simps)
qed

lemma swap_in_law:
  fixes f out r_in r_out :: nat
  defines "x \<equiv> r_in * out * 1000 div ((r_out - out) * f) + 1"
  assumes "0 < f" "f \<le> 1000" "out < r_out"
  shows "r_in * r_out \<le> (r_in + x) * (r_out - out)"
    and "out \<le> x * f * r_out div (r_in * 1000 + x * f)"
    and "0 < r_in \<Longrightarrow> (x - 1) * f * r_out div (r_in * 1000 + (x - 1) * f) \<le> out"
proof -
  obtain k where k: "r_out = out + k" "0 < k"
    using assms(4) less_imp_add_positive by blast
  have d: "(r_out - out) * f = k * f" and kf: "0 < k * f"
    using k assms(2) by simp_all
  have x: "r_in * out * 1000 < x * (k * f)" "(x - 1) * (k * f) \<le> r_in * out * 1000"
    unfolding x_def d using kf by (simp_all add: div_times_less_eq_dividend dividend_less_div_times)
  have "1000 * (r_in * out) \<le> f * (x * k)"
    using x(1) by (simp add: algebra_simps)
  also have "\<dots> \<le> 1000 * (x * k)"
    using assms(3) by (rule mult_right_mono) simp
  finally show "r_in * r_out \<le> (r_in + x) * (r_out - out)"
    unfolding k by (simp add: algebra_simps)
  have "0 < x"
    by (simp add: x_def)
  then have pos: "0 < r_in * 1000 + x * f"
    using assms(2) by simp
  have "out * (r_in * 1000 + x * f) \<le> x * f * r_out"
    using x(1) unfolding k by (simp add: algebra_simps)
  then show "out \<le> x * f * r_out div (r_in * 1000 + x * f)"
    using pos by (simp add: less_eq_div_iff_mult_less_eq)
  assume "0 < r_in"
  define y where "y = x - 1"
  have "y * (k * f) \<le> r_in * out * 1000"
    using x(2) by (simp add: y_def)
  with \<open>0 < r_in\<close> have "(x - 1) * f * r_out < Suc out * (r_in * 1000 + (x - 1) * f)"
    unfolding k y_def [symmetric] by (simp add: algebra_simps)
  then show "(x - 1) * f * r_out div (r_in * 1000 + (x - 1) * f) \<le> out"
    using less_mult_imp_div_less less_Suc_eq_le by blast
qed

subsection \<open>The search for the swap quantity\<close>

lemma and_then_Diverge: "and_then m f = Diverge \<longleftrightarrow> m = Diverge \<or> (\<exists>a. m = Ok a \<and> f a = Diverge)"
  by (cases m) auto

lemma basics_return [simp]: "ok_or x e \<noteq> Diverge" "try_into_unit y \<noteq> Diverge" "fee_factor l \<noteq> Diverge"
  by (cases x) (simp_all add: try_into_unit_def fee_factor_def)

lemma formulas_return [simp]:
  "mul_div a b c \<noteq> Diverge" "quote a b c \<noteq> Diverge"
  "get_amount_out l a b c \<noteq> Diverge" "get_amount_in l a b c \<noteq> Diverge"
  by (simp_all add: mul_div_def quote_def get_amount_out_def get_amount_in_def and_then_Diverge)

lemma price_after_returns: "price_after l b p b_r q_r x \<noteq> Diverge"
  by (simp add: price_after_def Let_def and_then_Diverge split: prod.splits)

lemma mid_bounds:
  fixes lo hi :: amount
  assumes "lo < hi" "unat hi < 2 ^ 127"
  shows "unat ((lo + hi + 1) div 2) = (unat lo + unat hi + 1) div 2"
proof -
  have "unat lo + unat hi < 2 ^ 128 - 1"
    using assms by (simp add: word_less_nat_alt)
  then have "unat (lo + hi) = unat lo + unat hi" "unat (lo + hi + 1) = unat lo + unat hi + 1"
    by (simp_all add: unat_add_no_wrap)
  then show ?thesis
    by (simp add: unat_div)
qed

text \<open>With a step of one the interval shrinks in every round.\<close>

lemma search_returns:
  assumes "\<And>x. price x \<noteq> Diverge"
  shows "unat hi < 2 ^ 127 \<Longrightarrow> unat sw \<le> bound \<Longrightarrow> unat hi \<le> bound \<Longrightarrow>
    \<exists>r. search_loop price is_bid target 1 lo hi sw = Some r \<and> r \<noteq> Diverge \<and> (\<forall>q. r = Ok q \<longrightarrow> unat q \<le> bound)"
proof (induction "unat hi - unat lo" arbitrary: lo hi sw rule: less_induct)
  case less
  show ?case
  proof (cases "lo < hi")
    case False
    with less.prems show ?thesis
      by (subst search_loop.simps) simp
  next
    case True
    define mid where "mid = (lo + hi + 1) div 2"
    have m: "unat mid = (unat lo + unat hi + 1) div 2" and lt: "unat lo < unat hi"
      unfolding mid_def using mid_bounds [OF True less.prems(1)] True by (simp_all add: word_less_nat_alt)
    then have mid: "unat lo < unat mid" "unat mid \<le> unat hi"
      by linarith+
    have up: "unat (mid + 1) = unat mid + 1"
      using mid(2) less.prems(1) by (simp add: unat_add_no_wrap)
    have down: "unat (mid - 1) = unat mid - 1"
      using mid(1) by (subst unat_sub_le) (simp_all add: word_le_nat_alt)
    have right: "\<exists>r. search_loop price is_bid target 1 (mid + 1) hi s = Some r \<and> r \<noteq> Diverge \<and> (\<forall>q. r = Ok q \<longrightarrow> unat q \<le> bound)"
      if "unat s \<le> bound" for s
      using less.hyps [of hi "mid + 1" s] less.prems mid up that by simp
    have left: "\<exists>r. search_loop price is_bid target 1 lo (mid - 1) s = Some r \<and> r \<noteq> Diverge \<and> (\<forall>q. r = Ok q \<longrightarrow> unat q \<le> bound)"
      if "unat s \<le> bound" for s
      using less.hyps [of "mid - 1" lo s] less.prems mid down that by simp
    have "unat mid \<le> bound"
      using mid less.prems by simp
    then show ?thesis
      using True right left assms [of mid] less.prems
      by (subst search_loop.simps) (auto simp: Let_def mid_def [symmetric] split: result.splits)
  qed
qed

text \<open>What the loop returns was a \<open>mid\<close> whose price did not exceed the target.\<close>

lemma search_price:
  assumes "search_loop price is_bid target one lo hi sw = Some (Ok q)"
    and "sw = 0 \<or> (\<exists>x. price sw = Ok x \<and> x \<le> target)"
  shows "q = 0 \<or> (\<exists>x. price q = Ok x \<and> x \<le> target)"
proof -
  have "r = Ok q \<longrightarrow> (sw = 0 \<or> (\<exists>x. price sw = Ok x \<and> x \<le> target)) \<longrightarrow> (q = 0 \<or> (\<exists>x. price q = Ok x \<and> x \<le> target))"
    if "search_loop price is_bid target one lo hi sw = Some r" for r
    using that
  proof (induction rule: search_loop.raw_induct [rotated 1, consumes 1, case_names step])
    case (step loop price is_bid target one lo hi sw r)
    then show ?case
      by (fastforce simp: Let_def split: if_splits result.splits)
  qed
  then show ?thesis
    using assms by blast
qed

lemma search_step:
  assumes "lo < hi" "mid = (lo + hi + 1) div 2" "price mid = Ok x"
  shows "x < target \<Longrightarrow> hi' = mid - one \<Longrightarrow>
      search_loop price False target one lo hi sw = search_loop price False target one lo hi' mid"
    and "target < x \<Longrightarrow> lo' = mid + one \<Longrightarrow>
      search_loop price False target one lo hi sw = search_loop price False target one lo' hi sw"
  using assms by (subst search_loop.simps; auto simp: Let_def)+

text \<open>A state in which the step leads back to the same interval is never left.\<close>

lemma search_stuck:
  assumes "lo < hi" "price ((lo + hi + 1) div 2) = Ok x" "x < target" "(lo + hi + 1) div 2 - one = hi"
  shows "search_loop price False target one lo hi sw = None"
proof (rule ccontr)
  assume "search_loop price False target one lo hi sw \<noteq> None"
  then obtain r where "search_loop price False target one lo hi sw = Some r"
    by blast
  then have "\<not> (\<exists>x. lo < hi \<and> price ((lo + hi + 1) div 2) = Ok x \<and> x < target \<and> (lo + hi + 1) div 2 - one = hi)"
  proof (induction price "False" target one lo hi sw r rule: search_loop.raw_induct [rotated 1, consumes 1, case_names step])
    case (step loop price target one lo hi sw r)
    then show ?case
      by (fastforce simp: Let_def split: if_splits result.splits)
  qed
  then show False
    using assms by blast
qed

lemma max_swap_returns:
  assumes "base_decimals p = 0" "unat remain < 2 ^ 127"
  shows "max_swap_quantity lp_fee is_bid target p b_r q_r remain \<noteq> Diverge
    \<and> (\<forall>q. max_swap_quantity lp_fee is_bid target p b_r q_r remain = Ok q \<longrightarrow> q \<le> remain)"
proof -
  have one: "normalize 1 (Some (base_decimals p)) = 1"
    by (simp add: assms(1) normalize_def)
  obtain r where "search_loop (price_after lp_fee is_bid p b_r q_r) is_bid target 1 0 remain 0 = Some r"
      "r \<noteq> Diverge" "\<forall>q. r = Ok q \<longrightarrow> unat q \<le> unat remain"
    using search_returns [of "price_after lp_fee is_bid p b_r q_r", OF price_after_returns assms(2),
        of 0 "unat remain" is_bid target 0] by auto
  then show ?thesis
    by (auto simp: max_swap_quantity_def one word_le_nat_alt)
qed

subsection \<open>The square root\<close>

text \<open>What the documentation of \<open>integer_sqrt\<close> promises: the largest integer whose square is not
  above the argument.\<close>

definition integer_sqrt_spec :: "(higher \<Rightarrow> higher) \<Rightarrow> bool" where
  "integer_sqrt_spec f \<longleftrightarrow> (\<forall>n. unat (f n) ^ 2 \<le> unat n \<and> unat n < (unat (f n) + 1) ^ 2)"

lemma calc_lp_nat:
  assumes "integer_sqrt_spec isqrt"
  shows "if unat a1 * unat a2 < unat m ^ 2 then calc_lp_amount_for_zero_supply isqrt m a1 a2 = Err InsufficientLiquidityMinted
    else \<exists>r. calc_lp_amount_for_zero_supply isqrt m a1 a2 = Ok r \<and> (unat r + unat m) ^ 2 \<le> unat a1 * unat a2
      \<and> unat a1 * unat a2 < (unat r + unat m + 1) ^ 2"
proof -
  define n where "n = unat a1 * unat a2"
  define q where "q = unat (isqrt (to_higher n))"
  have n: "n < 2 ^ 256" "unat (to_higher n) = n"
    unfolding n_def using amounts_bound(1) [of a1 a2] by (simp_all only: unat_to_higher)
  have q: "q ^ 2 \<le> n" "n < (q + 1) ^ 2"
    using assms [unfolded integer_sqrt_spec_def, rule_format, of "to_higher n"] unfolding q_def n(2) by blast+
  have "q ^ 2 < (2 ^ 128) ^ 2"
    using q(1) n(1) by simp
  then have q_less: "q < 2 ^ 128"
    by (rule power_less_imp_less_base) simp
  have iff: "n < unat m ^ 2 \<longleftrightarrow> q < unat m"
  proof
    assume "n < unat m ^ 2"
    with q(1) have "q ^ 2 < unat m ^ 2" by (rule le_less_trans)
    then show "q < unat m" by (rule power_less_imp_less_base) simp
  next
    assume "q < unat m"
    then have "(q + 1) ^ 2 \<le> unat m ^ 2" by (intro power_mono) simp_all
    with q(2) show "n < unat m ^ 2" by (rule less_le_trans)
  qed
  have calc: "calc_lp_amount_for_zero_supply isqrt m a1 a2 =
      (if q < unat m then Err InsufficientLiquidityMinted else Ok (to_unit (q - unat m)))"
    using n q_less less_imp_diff_less [OF q_less]
    by (simp add: calc_lp_amount_for_zero_supply_def checked_nat n_def [symmetric] q_def [symmetric] try_into_unit_nat)
  show ?thesis
    using q q_less iff unfolding calc n_def [symmetric] by (auto simp: unat_to_unit)
qed

text \<open>A square root for the concrete instances.\<close>

fun isqrt_nat :: "nat \<Rightarrow> nat" where
  "isqrt_nat n =
     (if n = 0 then 0
      else (let r = 2 * isqrt_nat (n div 4) in if (r + 1) ^ 2 \<le> n then r + 1 else r))"

declare isqrt_nat.simps [simp del]

lemma isqrt_nat_spec: "isqrt_nat n ^ 2 \<le> n \<and> n < (isqrt_nat n + 1) ^ 2"
proof (induction n rule: isqrt_nat.induct)
  case (1 n)
  show ?case
  proof (cases "n = 0")
    case False
    define r where "r = isqrt_nat (n div 4)"
    have r: "r ^ 2 \<le> n div 4" "n div 4 < (r + 1) ^ 2"
      using 1 False by (simp_all add: r_def)
    have "4 * r ^ 2 \<le> n" "n < 4 * (r + 1) ^ 2"
      using r by linarith+
    then have "(2 * r) ^ 2 \<le> n" "n < (2 * r + 1 + 1) ^ 2"
      by (simp_all add: power2_eq_square algebra_simps)
    moreover have "isqrt_nat n = (if (2 * r + 1) ^ 2 \<le> n then 2 * r + 1 else 2 * r)"
      using False by (subst isqrt_nat.simps) (simp add: Let_def r_def)
    ultimately show ?thesis
      by (simp split: if_splits)
  qed (simp add: isqrt_nat.simps)
qed

definition isqrt :: "higher \<Rightarrow> higher" where
  "isqrt x = to_higher (isqrt_nat (unat x))"

lemma isqrt_spec: "integer_sqrt_spec isqrt"
  unfolding integer_sqrt_spec_def
proof
  fix x :: higher
  have "isqrt_nat (unat x) \<le> isqrt_nat (unat x) ^ 2"
    by (cases "isqrt_nat (unat x)") (simp_all add: power2_eq_square)
  also have "\<dots> \<le> unat x"
    using isqrt_nat_spec by blast
  also have "\<dots> < 2 ^ 256"
    using unsigned_less [of x] by simp
  finally have "unat (isqrt x) = isqrt_nat (unat x)"
    by (simp add: isqrt_def unat_to_higher)
  then show "unat (isqrt x) ^ 2 \<le> unat x \<and> unat x < (unat (isqrt x) + 1) ^ 2"
    using isqrt_nat_spec by simp
qed

subsection \<open>Swaps keep the product of the reserves\<close>

lemma amount_out_keeps_product:
  assumes "lp_fee \<le> 1000" "get_amount_out lp_fee amount_in reserve_in reserve_out = Ok amount_out"
  shows "amount_out < reserve_out \<and> unat reserve_in * unat reserve_out
    \<le> (unat reserve_in + unat amount_in) * (unat reserve_out - unat amount_out)"
proof -
  let ?out = "unat amount_in * (1000 - unat lp_fee) * unat reserve_out
      div (unat reserve_in * 1000 + unat amount_in * (1000 - unat lp_fee))"
  have r: "0 < unat reserve_in" "0 < unat reserve_out" and out: "amount_out = to_unit ?out"
    using assms(2) get_amount_out_nat [OF assms(1), of amount_in reserve_in reserve_out]
    by (auto simp: unat_gt_0 split: if_splits)
  note law = swap_out_law [of "1000 - unat lp_fee" "unat reserve_in" "unat reserve_out" "unat amount_in", OF _ r]
  have "?out < unat reserve_out"
    by (rule law) simp
  then have "unat amount_out = ?out"
    unfolding out using unat_amount_less [of reserve_out] by (intro unat_to_unit) simp
  then show ?thesis
    using law by (simp add: word_less_nat_alt)
qed

lemma amount_in_keeps_product:
  assumes "lp_fee \<le> 1000" "get_amount_in lp_fee out reserve_in reserve_out = Ok i"
  shows "out < reserve_out \<and> unat reserve_in * unat reserve_out
    \<le> (unat reserve_in + unat i) * (unat reserve_out - unat out)"
proof -
  let ?f = "1000 - unat lp_fee" and ?ri = "unat reserve_in" and ?ro = "unat reserve_out" and ?out = "unat out"
  let ?i = "?ri * ?out * 1000 div ((?ro - ?out) * ?f) + 1"
  have r: "?out < ?ro" "0 < ?f" and i: "i = to_unit ?i" "?i < 2 ^ 128"
    using assms(2) get_amount_in_nat [OF assms(1), of out reserve_in reserve_out]
    by (auto simp: word_le_nat_alt split: if_splits)
  have ui: "unat i = ?i"
    unfolding i(1) using i(2) by (rule unat_to_unit)
  show ?thesis
    using swap_in_law(1) [OF r(2) _ r(1), of ?ri, folded ui] r(1) by (simp add: word_less_nat_alt)
qed

subsection \<open>Properties\<close>

text \<open>
  The output of a swap, exactly: for a fee of at most 1000 per mille \<open>get_amount_out\<close> fails with
  \<open>ZeroLiquidity\<close> when a reserve is zero, with \<open>Overflow\<close> exactly when the product of the input after
  fees with the output reserve does not fit in 256 bits, and otherwise returns the quotient of the
  constant-product formula, rounded down.
\<close>

theorem get_amount_out_exact:
  assumes "lp_fee \<le> 1000"
  shows "get_amount_out lp_fee amount_in reserve_in reserve_out =
     (if reserve_in = 0 \<or> reserve_out = 0 then Err ZeroLiquidity
      else if 2 ^ 256 \<le> unat amount_in * (1000 - unat lp_fee) * unat reserve_out then Err Overflow
      else Ok (to_unit (unat amount_in * (1000 - unat lp_fee) * unat reserve_out
        div (unat reserve_in * 1000 + unat amount_in * (1000 - unat lp_fee)))))"
  using assms by (rule get_amount_out_nat)

theorem get_amount_out_exact_witness:
  "get_amount_out 3 100 1000 2000 = Ok (to_unit 181)"
  using get_amount_out_exact [of 3 100 1000 2000] by simp

text \<open>
  C6. A swap never lowers the product of the reserves and never empties a reserve: when
  \<open>get_amount_out\<close> returns an amount it is below the output reserve, and the product of the reserves
  after the swap is at least the product before it.
\<close>

theorem get_amount_out_keeps_product:
  assumes "lp_fee \<le> 1000" "get_amount_out lp_fee amount_in reserve_in reserve_out = Ok amount_out"
  shows "amount_out < reserve_out \<and> unat reserve_in * unat reserve_out
    \<le> (unat reserve_in + unat amount_in) * (unat reserve_out - unat amount_out)"
  using assms by (rule amount_out_keeps_product)

theorem get_amount_out_keeps_product_witness:
  "get_amount_out 3 100 1000 2000 = Ok 181 \<and> (1000 :: nat) * 2000 \<le> (1000 + 100) * (2000 - 181)"
proof -
  have "get_amount_out 3 100 1000 2000 = Ok 181"
    by code_simp
  then show ?thesis
    using get_amount_out_keeps_product [of 3 100 1000 2000 181] by simp
qed



text \<open>
  The initial liquidity is the geometric mean of the two amounts less the minimum that stays
  locked: it fails exactly when the product of the amounts is below the square of the minimum, and
  never by overflow.
\<close>

theorem calc_lp_is_geometric_mean:
  assumes "integer_sqrt_spec isqrt"
  shows "if unat a1 * unat a2 < unat m ^ 2 then calc_lp_amount_for_zero_supply isqrt m a1 a2 = Err InsufficientLiquidityMinted
    else \<exists>r. calc_lp_amount_for_zero_supply isqrt m a1 a2 = Ok r \<and> (unat r + unat m) ^ 2 \<le> unat a1 * unat a2
      \<and> unat a1 * unat a2 < (unat r + unat m + 1) ^ 2"
  using assms by (rule calc_lp_nat)

theorem calc_lp_is_geometric_mean_witness:
  "integer_sqrt_spec isqrt \<and> (\<exists>r. calc_lp_amount_for_zero_supply isqrt 100 400 900 = Ok r \<and> unat r = 500)"
proof -
  obtain r where r: "calc_lp_amount_for_zero_supply isqrt 100 400 900 = Ok r"
      "(unat r + 100) ^ 2 \<le> 600 ^ 2" "600 ^ 2 < (unat r + 100 + 1) ^ 2"
    using calc_lp_is_geometric_mean [OF isqrt_spec, of 400 900 100] by auto
  have "unat r + 100 \<le> 600" "600 < unat r + 100 + 1"
    using power2_le_imp_le [OF r(2)] power_less_imp_less_base [OF r(3)] by simp_all
  then show ?thesis
    using r(1) isqrt_spec by auto
qed

text \<open>
  C25. The search for the swap quantity ends when the base asset has no decimals and the order is
  below \<open>2 ^ 127\<close>: it returns, and a returned quantity is at most the order.
\<close>

theorem max_swap_quantity_returns:
  assumes "base_decimals p = 0" "unat remain < 2 ^ 127"
  shows "max_swap_quantity lp_fee is_bid target p b_r q_r remain \<noteq> Diverge
    \<and> (\<forall>q. max_swap_quantity lp_fee is_bid target p b_r q_r remain = Ok q \<longrightarrow> q \<le> remain)"
  using assms by (rule max_swap_returns)

definition decimals_pool :: "8 word \<Rightarrow> (nat, nat) pallet_pool" where
  "decimals_pool d = pool_new 0 0 1 1 0 d d"

text \<open>The formulas evaluate by simplification over the natural numbers.\<close>

lemmas price_eval = price_after_def decimal_adjustment_def decimals_pool_def pool_new_def normalize_def
  get_amount_out_nat get_amount_in_nat quote_def mul_div_nat to_unit_def Let_def

theorem max_swap_quantity_returns_witness:
  "max_swap_quantity 3 True 10 (decimals_pool 0) 1000 10000 4 = Ok 2
    \<and> (2 :: amount) \<le> 4"
proof -
  have "max_swap_quantity 3 True 10 (decimals_pool 0) 1000 10000 4 = Ok 2"
    by (subst max_swap_quantity_def, subst search_loop.simps) (simp add: price_eval)
  then show ?thesis
    using max_swap_quantity_returns [of "decimals_pool 0" 4 3 True 10 1000 10000]
    by (simp add: decimals_pool_def pool_new_def)
qed

text \<open>
  C26. The search for the swap quantity does not end for every pool: with one decimal in the base asset
  the bound \<open>mid - 10\<close> wraps around below ten, and this ask search reaches an interval that the next
  round computes again.
\<close>

theorem max_swap_quantity_can_diverge:
  "max_swap_quantity 3 False 2 (decimals_pool 1) 2 22 17 = Diverge"
proof -
  let ?price = "price_after 3 False (decimals_pool 1) 2 22"
  have stuck: "search_loop ?price False 2 10 12 (- 7) sw = None" for sw
    by (rule search_stuck [where x = 1]) (simp_all add: price_eval)
  have "search_loop ?price False 2 10 0 17 0 = search_loop ?price False 2 10 0 (- 1) 9"
    by (rule search_step(1) [where x = 0]) (simp_all add: price_eval)
  also have "\<dots> = search_loop ?price False 2 10 10 (- 1) 9"
    by (rule search_step(2) [where x = 11 and mid = 0]) (simp_all add: price_eval word_gt_0)
  also have "\<dots> = search_loop ?price False 2 10 10 (- 5) 5"
    by (rule search_step(1) [where x = 1]) (simp_all add: price_eval)
  also have "\<dots> = search_loop ?price False 2 10 10 (- 7) 3"
    by (rule search_step(1) [where x = 1]) (simp_all add: price_eval)
  also have "\<dots> = search_loop ?price False 2 10 12 (- 7) 3"
    by (rule search_step(2) [where x = 3 and mid = 2]) (simp_all add: price_eval)
  finally have "search_loop ?price False 2 10 0 17 0 = None"
    by (simp only: stuck)
  moreover have "normalize 1 (Some (base_decimals (decimals_pool 1))) = 10"
    by (simp add: price_eval)
  ultimately show ?thesis
    by (simp add: max_swap_quantity_def)
qed

text \<open>
  C27. A quantity that the search returns is zero or one after whose swap the price of the pool is at
  or below the target. For a bid, which raises the price, the pool is thus never pushed past the
  price of the book; for an ask, which lowers it, a non-zero result reaches or passes the target.
\<close>

theorem max_swap_quantity_price:
  assumes "max_swap_quantity lp_fee is_bid target p b_r q_r remain = Ok q"
  shows "q = 0 \<or> (\<exists>x. price_after lp_fee is_bid p b_r q_r q = Ok x \<and> x \<le> target)"
  using assms unfolding max_swap_quantity_def loop_outcome_eq_Ok by (rule search_price) simp

theorem max_swap_quantity_price_witness:
  "max_swap_quantity 3 True 10 (decimals_pool 0) 1000 10000 4 = Ok 2
    \<and> (\<exists>x. price_after 3 True (decimals_pool 0) 1000 10000 2 = Ok x \<and> x \<le> 10)"
proof -
  have "max_swap_quantity 3 True 10 (decimals_pool 0) 1000 10000 4 = Ok 2"
    by (subst max_swap_quantity_def, subst search_loop.simps) (simp add: price_eval)
  then show ?thesis
    using max_swap_quantity_price [of 3 True 10 "decimals_pool 0" 1000 10000 4 2] by simp
qed

end
