(* ===== verification/Ledger.thy ===== *)
theory Ledger
  imports Pricing
begin

text \<open>
  The state of the pallet and what it relies on (\<open>pallets/hybrid-orderbook/src/lib.rs\<close>: \<open>Config\<close>,
  \<open>Pools\<close>, \<open>NextPoolAssetId\<close>, \<open>Event\<close>, and the helpers \<open>withdraw\<close> and \<open>get_balance\<close>).

  A call of the pallet takes the world and returns an outcome and the world it leaves; the world
  that a failed call leaves is what the storage layer around the call rolls back. The asset
  registries, the freezer, the pool locator, the square root of \<open>U256\<close> and the multiplication of
  \<open>Permill\<close> are code of other crates: they are the function fields of the record \<open>env\<close>, next to
  the constants of \<open>Config\<close>. What the code relies on of the registries is the predicate
  \<open>fungibles_spec\<close>, and \<open>table_env\<close> is a registry that satisfies it.
\<close>

datatype dispatch_error = Module pallet_error | NotExpendable | BadOrigin | Corruption | External nat

datatype preservation = Preserve | Expendable

record 'asset credit =
  credit_asset :: 'asset
  credit_amount :: amount

datatype ('asset, 'acc, 'lp) event =
  PoolCreated 'acc "'asset \<times> 'asset" 'acc 'lp "32 word" amount amount
| LiquidityAdded 'acc 'acc "'asset \<times> 'asset" amount amount 'lp amount
| LiquidityRemoved 'acc 'acc "'asset \<times> 'asset" amount amount 'lp amount "32 word"
| SwapExecuted 'acc 'acc amount amount "('asset \<times> amount) list"
| SwapCreditExecuted amount amount "('asset \<times> amount) list"
| Touched "'asset \<times> 'asset" 'acc
| OrderMatched 'acc amount bool
| LimitOrder "'asset \<times> 'asset" 'acc amount amount bool
| MarketOrder 'acc
| LimitOrderPlaced 'acc amount "'asset \<times> 'asset" OrderId amount bool
| OrderCancelled "'asset \<times> 'asset" 'acc OrderId

record ('asset, 'acc, 'lp, 'l) world =
  pools :: "'asset \<times> 'asset \<Rightarrow> ('lp, 'acc) pallet_pool option"
  next_pool_asset_id :: "'lp option"
  ledger :: 'l
  events :: "('asset, 'acc, 'lp) event list"
  block_number :: "32 word"

subsection \<open>Calls\<close>

type_synonym ('s, 'e, 'a) call = "'s \<Rightarrow> ('e, 'a) result \<times> 's"

definition give :: "'a \<Rightarrow> ('s, 'e, 'a) call" where
  "give a s = (Ok a, s)"

definition from_result :: "('e, 'a) result \<Rightarrow> ('s, 'e, 'a) call" where
  "from_result r s = (r, s)"

definition bind :: "('s, 'e, 'a) call \<Rightarrow> ('a \<Rightarrow> ('s, 'e, 'b) call) \<Rightarrow> ('s, 'e, 'b) call" where
  "bind c f s =
     (case c s of
        (Ok a, s') \<Rightarrow> f a s'
      | (Err e, s') \<Rightarrow> (Err e, s')
      | (Panic, s') \<Rightarrow> (Panic, s')
      | (Diverge, s') \<Rightarrow> (Diverge, s'))"

definition require :: "bool \<Rightarrow> 'e \<Rightarrow> ('s, 'e, unit) call" where
  "require b e = from_result (ensure b e)"

definition reads :: "('s \<Rightarrow> 'a) \<Rightarrow> ('s, 'e, 'a) call" where
  "reads f s = (Ok (f s), s)"

definition updates :: "('s \<Rightarrow> 's) \<Rightarrow> ('s, 'e, unit) call" where
  "updates f s = (Ok (), f s)"

text \<open>\<open>map_err\<close> with a closure that may act on the world.\<close>

definition rescue :: "('s, 'e, 'a) call \<Rightarrow> ('e \<Rightarrow> ('s, 'f, 'a) call) \<Rightarrow> ('s, 'f, 'a) call" where
  "rescue c h s =
     (case c s of
        (Ok a, s') \<Rightarrow> (Ok a, s')
      | (Err e, s') \<Rightarrow> h e s'
      | (Panic, s') \<Rightarrow> (Panic, s')
      | (Diverge, s') \<Rightarrow> (Diverge, s'))"

text \<open>Errors of the pallet become dispatch errors.\<close>

abbreviation pallet :: "(pallet_error, 'a) result \<Rightarrow> ('s, dispatch_error, 'a) call" where
  "pallet r \<equiv> from_result (map_err Module r)"

text \<open>A call of a registry acts on the ledger of the world.\<close>

definition on_ledger :: "('l, 'e, 'a) call \<Rightarrow> (('asset, 'acc, 'lp, 'l) world, 'e, 'a) call" where
  "on_ledger c w = (case c (ledger w) of (r, l) \<Rightarrow> (r, w\<lparr>ledger := l\<rparr>))"

definition deposit_event ::
  "('asset, 'acc, 'lp) event \<Rightarrow> (('asset, 'acc, 'lp, 'l) world, 'e, unit) call"
where
  "deposit_event e = updates (\<lambda>w. w\<lparr>events := events w @ [e]\<rparr>)"

subsection \<open>Constants and other crates\<close>

record ('asset, 'acc, 'lp, 'l) env =
  lp_fee :: "32 word"
  pool_setup_fee :: amount
  pool_setup_fee_asset :: 'asset
  order_expiration :: "32 word"
  liquidity_withdrawal_fee :: "32 word"
  mint_min_liquidity :: amount
  max_swap_path_length :: "32 word"
  locate :: "'asset \<Rightarrow> 'asset \<Rightarrow> (unit, 'asset \<times> 'asset) result"
  locator_account :: "'asset \<times> 'asset \<Rightarrow> (unit, 'acc) result"
  integer_sqrt :: "higher \<Rightarrow> higher"
  permill_mul :: "32 word \<Rightarrow> amount \<Rightarrow> amount"
  lp_initial_value :: "'lp option"
  lp_increment :: "'lp \<Rightarrow> 'lp option"
  reducible_balance :: "'asset \<Rightarrow> 'acc \<Rightarrow> preservation \<Rightarrow> 'l \<Rightarrow> amount"
  minimum_balance :: "'asset \<Rightarrow> 'l \<Rightarrow> amount"
  assets_withdraw :: "'asset \<Rightarrow> 'acc \<Rightarrow> amount \<Rightarrow> preservation \<Rightarrow> ('l, dispatch_error, 'asset credit) call"
  assets_resolve :: "'acc \<Rightarrow> 'asset credit \<Rightarrow> ('l, 'asset credit, unit) call"
  assets_transfer :: "'asset \<Rightarrow> 'acc \<Rightarrow> 'acc \<Rightarrow> amount \<Rightarrow> preservation \<Rightarrow> ('l, dispatch_error, amount) call"
  assets_should_touch :: "'asset \<Rightarrow> 'acc \<Rightarrow> 'l \<Rightarrow> bool"
  assets_touch :: "'asset \<Rightarrow> 'acc \<Rightarrow> 'acc \<Rightarrow> ('l, dispatch_error, unit) call"
  increase_frozen :: "'asset \<Rightarrow> 'acc \<Rightarrow> amount \<Rightarrow> ('l, dispatch_error, unit) call"
  decrease_frozen :: "'asset \<Rightarrow> 'acc \<Rightarrow> amount \<Rightarrow> ('l, dispatch_error, unit) call"
  split_credit :: "'asset credit \<Rightarrow> amount \<Rightarrow> 'asset credit \<times> 'asset credit"
  drop_credit :: "'asset credit \<Rightarrow> 'l \<Rightarrow> 'l"
  on_unbalanced :: "'asset credit \<Rightarrow> 'l \<Rightarrow> 'l"
  lp_create :: "'lp \<Rightarrow> 'acc \<Rightarrow> bool \<Rightarrow> amount \<Rightarrow> ('l, dispatch_error, unit) call"
  lp_total_issuance :: "'lp \<Rightarrow> 'l \<Rightarrow> amount"
  lp_mint_into :: "'lp \<Rightarrow> 'acc \<Rightarrow> amount \<Rightarrow> ('l, dispatch_error, amount) call"
  lp_burn_from :: "'lp \<Rightarrow> 'acc \<Rightarrow> amount \<Rightarrow> preservation \<Rightarrow> ('l, dispatch_error, amount) call"
  lp_should_touch :: "'lp \<Rightarrow> 'acc \<Rightarrow> 'l \<Rightarrow> bool"
  lp_touch :: "'lp \<Rightarrow> 'acc \<Rightarrow> 'acc \<Rightarrow> ('l, dispatch_error, unit) call"

subsection \<open>Balances\<close>

definition withdraw ::
  "('asset, 'acc, 'lp, 'l) env \<Rightarrow> 'asset \<Rightarrow> 'acc \<Rightarrow> amount \<Rightarrow> bool
    \<Rightarrow> (('asset, 'acc, 'lp, 'l) world, dispatch_error, 'asset credit) call"
where
  "withdraw env asset who v keep_alive =
     (let preservation = (if keep_alive then Preserve else Expendable)
      in bind (if preservation = Preserve
               then bind (reads (\<lambda>w. reducible_balance env asset who preservation (ledger w))) (\<lambda>free.
                    require (v \<le> free) NotExpendable)
               else give ()) (\<lambda>_.
         on_ledger (assets_withdraw env asset who v preservation)))"

definition get_balance :: "('asset, 'acc, 'lp, 'l) env \<Rightarrow> 'acc \<Rightarrow> 'asset \<Rightarrow> ('asset, 'acc, 'lp, 'l) world \<Rightarrow> amount" where
  "get_balance env owner asset w = reducible_balance env asset owner Expendable (ledger w)"

definition get_reserves ::
  "('asset, 'acc, 'lp, 'l) env \<Rightarrow> 'asset \<Rightarrow> 'asset \<Rightarrow> ('asset, 'acc, 'lp, 'l) world
    \<Rightarrow> (pallet_error, amount \<times> amount) result"
where
  "get_reserves env asset1 asset2 w =
     and_then (map_err (\<lambda>_. InvalidAssetPair) (pool_address (locate env) (locator_account env) asset1 asset2)) (\<lambda>pool_account.
       let balance1 = get_balance env pool_account asset1 w;
           balance2 = get_balance env pool_account asset2 w
       in if balance1 = 0 \<or> balance2 = 0 then Err ZeroLiquidity else Ok (balance1, balance2))"

subsection \<open>Calls that leave parts of the world alone\<close>

named_theorems call_simps "evaluation of composed calls"

lemma bind_simps [call_simps]:
  "c s = (Ok a, s') \<Longrightarrow> bind c f s = f a s'"
  "c s = (Err e, s') \<Longrightarrow> bind c f s = (Err e, s')"
  "c s = (Panic, s') \<Longrightarrow> bind c f s = (Panic, s')"
  "c s = (Diverge, s') \<Longrightarrow> bind c f s = (Diverge, s')"
  by (simp_all add: bind_def)

lemma basic_calls [call_simps]:
  "give a s = (Ok a, s)" "from_result r s = (r, s)" "require b e s = (ensure b e, s)"
  "reads g s = (Ok (g s), s)" "updates h s = (Ok (), h s)"
  by (simp_all add: give_def from_result_def require_def reads_def updates_def)

lemma bind_eq_Ok:
  "bind c f s = (Ok b, s'') \<longleftrightarrow> (\<exists>a s'. c s = (Ok a, s') \<and> f a s' = (Ok b, s''))"
  by (auto simp: bind_def split: prod.splits result.splits)

lemma require_Ok: "require b e w = (Ok u, w') \<longleftrightarrow> b \<and> w' = w"
  by (auto simp: basic_calls ensure_def)

subsection \<open>Invariants of the stored pools\<close>

definition keeps :: "('s \<Rightarrow> bool) \<Rightarrow> ('s, 'e, 'a) call \<Rightarrow> bool" where
  "keeps I c \<longleftrightarrow> (\<forall>s. I s \<longrightarrow> I (snd (c s)))"

definition returns :: "('s, 'e, 'a) call \<Rightarrow> bool" where
  "returns c \<longleftrightarrow> (\<forall>s. fst (c s) \<noteq> Diverge)"

named_theorems keeps_intros "calls that keep an invariant"
named_theorems returns_intros "calls that return"

lemma keepsI: "(\<And>s. I s \<Longrightarrow> I (snd (c s))) \<Longrightarrow> keeps I c"
  by (simp add: keeps_def)

lemma keepsD: "keeps I c \<Longrightarrow> I s \<Longrightarrow> c s = (r, s') \<Longrightarrow> I s'"
  by (metis keeps_def snd_conv)

lemma keeps_basic [keeps_intros]:
  "keeps I (give a)" "keeps I (from_result r)" "keeps I (require b e)" "keeps I (reads g)"
  by (simp_all add: keeps_def basic_calls)

lemma keeps_bind [keeps_intros]: "keeps I c \<Longrightarrow> (\<And>a. keeps I (f a)) \<Longrightarrow> keeps I (bind c f)"
  unfolding keeps_def bind_def by (auto split: prod.splits result.splits)

lemma keeps_rescue [keeps_intros]: "keeps I c \<Longrightarrow> (\<And>e. keeps I (h e)) \<Longrightarrow> keeps I (rescue c h)"
  unfolding keeps_def rescue_def by (auto split: prod.splits result.splits)

lemma keeps_if [keeps_intros]: "(b \<Longrightarrow> keeps I c) \<Longrightarrow> (\<not> b \<Longrightarrow> keeps I d) \<Longrightarrow> keeps I (if b then c else d)"
  by simp

lemma returns_basic [returns_intros]:
  "returns (give a)" "returns (require b e)" "returns (reads g)" "returns (updates h)"
  "r \<noteq> Diverge \<Longrightarrow> returns (from_result r)"
  by (simp_all add: returns_def basic_calls ensure_def)

lemma returns_bind [returns_intros]: "returns c \<Longrightarrow> (\<And>a. returns (f a)) \<Longrightarrow> returns (bind c f)"
  by (auto simp: returns_def bind_def split: prod.splits result.splits) (metis fst_conv)+

lemma returns_rescue [returns_intros]: "returns c \<Longrightarrow> (\<And>e. returns (h e)) \<Longrightarrow> returns (rescue c h)"
  by (auto simp: returns_def rescue_def split: prod.splits result.splits) (metis fst_conv)+

lemma returns_if [returns_intros]: "(b \<Longrightarrow> returns c) \<Longrightarrow> (\<not> b \<Longrightarrow> returns d) \<Longrightarrow> returns (if b then c else d)"
  by simp

text \<open>The storage of the pallet, without the ledger and the events.\<close>

definition storage :: "('asset, 'acc, 'lp, 'l) world \<Rightarrow> ('asset \<times> 'asset \<Rightarrow> ('lp, 'acc) pallet_pool option) \<times> 'lp option \<times> 32 word" where
  "storage w = (pools w, next_pool_asset_id w, block_number w)"

text \<open>An invariant that depends on the storage of the pallet only.\<close>

definition storage_inv :: "(('asset, 'acc, 'lp, 'l) world \<Rightarrow> bool) \<Rightarrow> bool" where
  "storage_inv I \<longleftrightarrow> (\<forall>w w'. storage w = storage w' \<longrightarrow> I w \<longrightarrow> I w')"

lemma storage_invI [intro]: "storage_inv (\<lambda>w. P (pools w))"
  by (simp add: storage_inv_def storage_def)

lemma keeps_storage [keeps_intros]:
  assumes "storage_inv I"
  shows "keeps I (on_ledger c)" "keeps I (deposit_event e)" "keeps I (updates (\<lambda>w. w\<lparr>ledger := f w\<rparr>))"
  using assms
  by (auto simp: keeps_def on_ledger_def deposit_event_def basic_calls storage_inv_def storage_def split: prod.splits)

lemma keeps_withdraw [keeps_intros]: "storage_inv I \<Longrightarrow> keeps I (withdraw env asset who v keep_alive)"
  unfolding withdraw_def Let_def by (intro keeps_intros)

lemma returns_ledger [returns_intros]: "returns c \<Longrightarrow> returns (on_ledger c)" "returns (deposit_event e)"
  by (auto simp: returns_def on_ledger_def deposit_event_def basic_calls split: prod.splits) (metis fst_conv)

text \<open>The calls of the registries return.\<close>

definition registries_return :: "('asset, 'acc, 'lp, 'l) env \<Rightarrow> bool" where
  "registries_return env \<longleftrightarrow>
     (\<forall>a x v k. returns (assets_withdraw env a x v k)) \<and> (\<forall>x c. returns (assets_resolve env x c))
     \<and> (\<forall>a x y v k. returns (assets_transfer env a x y v k))
     \<and> (\<forall>a x v. returns (increase_frozen env a x v)) \<and> (\<forall>a x v. returns (decrease_frozen env a x v))
     \<and> (\<forall>a b. locate env a b \<noteq> Diverge) \<and> (\<forall>i. locator_account env i \<noteq> Diverge)"

lemma returns_withdraw [returns_intros]: "registries_return env \<Longrightarrow> returns (withdraw env asset who v keep_alive)"
  unfolding withdraw_def Let_def by (intro returns_intros) (simp add: registries_return_def)

lemma map_err_Diverge [simp]: "map_err g m = Diverge \<longleftrightarrow> m = Diverge"
  by (cases m) simp_all

lemma get_reserves_returns: "registries_return env \<Longrightarrow> get_reserves env a b w \<noteq> Diverge"
  by (auto simp: get_reserves_def and_then_Diverge Let_def pool_address_def registries_return_def split: result.splits)

subsection \<open>What the registries promise\<close>

text \<open>
  Balances as the code relies on them: \<open>bal\<close> is the balance of an account and \<open>frz\<close> what is frozen
  of it. The reducible balance is what is not frozen, and a call that succeeds moves exactly the
  amount it was asked to move and nothing else.
\<close>

definition debit :: "('asset \<Rightarrow> 'acc \<Rightarrow> nat) \<Rightarrow> 'asset \<Rightarrow> 'acc \<Rightarrow> nat \<Rightarrow> 'asset \<Rightarrow> 'acc \<Rightarrow> nat" where
  "debit m a x v = m(a := (m a)(x := m a x - v))"

definition deposit :: "('asset \<Rightarrow> 'acc \<Rightarrow> nat) \<Rightarrow> 'asset \<Rightarrow> 'acc \<Rightarrow> nat \<Rightarrow> 'asset \<Rightarrow> 'acc \<Rightarrow> nat" where
  "deposit m a x v = m(a := (m a)(x := m a x + v))"

lemma debit_deposit_simps [simp]:
  "debit m a x v b y = (if b = a \<and> y = x then m a x - v else m b y)"
  "deposit m a x v b y = (if b = a \<and> y = x then m a x + v else m b y)"
  by (simp_all add: debit_def deposit_def)

definition fungibles_spec ::
  "('asset, 'acc, 'lp, 'l) env \<Rightarrow> ('l \<Rightarrow> 'asset \<Rightarrow> 'acc \<Rightarrow> nat) \<Rightarrow> ('l \<Rightarrow> 'asset \<Rightarrow> 'acc \<Rightarrow> nat) \<Rightarrow> bool"
where
  "fungibles_spec env bal frz \<longleftrightarrow>
     (\<forall>l a x. unat (reducible_balance env a x Expendable l) = bal l a x - frz l a x)
     \<and> (\<forall>l a x v k c l'. assets_withdraw env a x v k l = (Ok c, l') \<longrightarrow>
          c = \<lparr>credit_asset = a, credit_amount = v\<rparr> \<and> unat v \<le> bal l a x
          \<and> bal l' = debit (bal l) a x (unat v) \<and> frz l' = frz l)
     \<and> (\<forall>l x c u l'. assets_resolve env x c l = (Ok u, l') \<longrightarrow>
          bal l' = deposit (bal l) (credit_asset c) x (unat (credit_amount c)) \<and> frz l' = frz l)
     \<and> (\<forall>l a x y v k n l'. assets_transfer env a x y v k l = (Ok n, l') \<longrightarrow>
          unat v \<le> bal l a x \<and> bal l' = deposit (debit (bal l) a x (unat v)) a y (unat v) \<and> frz l' = frz l)
     \<and> (\<forall>l a x v u l'. increase_frozen env a x v l = (Ok u, l') \<longrightarrow>
          bal l' = bal l \<and> frz l' = deposit (frz l) a x (unat v))
     \<and> (\<forall>l a x v u l'. decrease_frozen env a x v l = (Ok u, l') \<longrightarrow>
          bal l' = bal l \<and> unat v \<le> frz l a x \<and> frz l' = debit (frz l) a x (unat v))"

lemma fungibles_specD:
  assumes "fungibles_spec env bal frz"
  shows "unat (reducible_balance env a x Expendable l) = bal l a x - frz l a x"
    "assets_withdraw env a x v k l = (Ok c, l') \<Longrightarrow>
       c = \<lparr>credit_asset = a, credit_amount = v\<rparr> \<and> unat v \<le> bal l a x
       \<and> bal l' = debit (bal l) a x (unat v) \<and> frz l' = frz l"
    "assets_resolve env x d l = (Ok u, l') \<Longrightarrow>
       bal l' = deposit (bal l) (credit_asset d) x (unat (credit_amount d)) \<and> frz l' = frz l"
    "assets_transfer env a x y v k l = (Ok n, l') \<Longrightarrow>
       unat v \<le> bal l a x \<and> bal l' = deposit (debit (bal l) a x (unat v)) a y (unat v) \<and> frz l' = frz l"
    "increase_frozen env a x v l = (Ok u, l') \<Longrightarrow> bal l' = bal l \<and> frz l' = deposit (frz l) a x (unat v)"
    "decrease_frozen env a x v l = (Ok u, l') \<Longrightarrow>
       bal l' = bal l \<and> unat v \<le> frz l a x \<and> frz l' = debit (frz l) a x (unat v)"
  using assms unfolding fungibles_spec_def by (elim conjE, simp)+

text \<open>Liquidity tokens: \<open>issued\<close> is the issuance of a token and \<open>hold\<close> what an account holds of it. Minting
  and burning change only these, and moving other assets changes none of them.\<close>

definition tokens_spec ::
  "('asset, 'acc, 'lp, 'l) env \<Rightarrow> ('l \<Rightarrow> 'asset \<Rightarrow> 'acc \<Rightarrow> nat) \<Rightarrow> ('l \<Rightarrow> 'asset \<Rightarrow> 'acc \<Rightarrow> nat) \<Rightarrow> ('l \<Rightarrow> 'lp \<Rightarrow> nat)
    \<Rightarrow> ('l \<Rightarrow> 'lp \<Rightarrow> 'acc \<Rightarrow> nat) \<Rightarrow> bool"
where
  "tokens_spec env bal frz issued hold \<longleftrightarrow>
     (\<forall>l n. unat (lp_total_issuance env n l) = issued l n)
     \<and> (\<forall>l n x v r l'. lp_mint_into env n x v l = (Ok r, l') \<longrightarrow>
          issued l' = (issued l)(n := issued l n + unat v) \<and> hold l' = deposit (hold l) n x (unat v)
          \<and> bal l' = bal l \<and> frz l' = frz l)
     \<and> (\<forall>l n x v k r l'. lp_burn_from env n x v k l = (Ok r, l') \<longrightarrow>
          unat v \<le> issued l n \<and> unat v \<le> hold l n x \<and> issued l' = (issued l)(n := issued l n - unat v)
          \<and> hold l' = debit (hold l) n x (unat v) \<and> bal l' = bal l \<and> frz l' = frz l)
     \<and> (\<forall>l a x y v k r l'. assets_transfer env a x y v k l = (Ok r, l') \<longrightarrow> issued l' = issued l \<and> hold l' = hold l)"

lemma tokens_specD:
  assumes "tokens_spec env bal frz issued hold"
  shows "unat (lp_total_issuance env n l) = issued l n"
    "lp_mint_into env n x v l = (Ok r, l') \<Longrightarrow>
       issued l' = (issued l)(n := issued l n + unat v) \<and> hold l' = deposit (hold l) n x (unat v)
       \<and> bal l' = bal l \<and> frz l' = frz l"
    "lp_burn_from env n x v k l = (Ok r, l') \<Longrightarrow>
       unat v \<le> issued l n \<and> unat v \<le> hold l n x \<and> issued l' = (issued l)(n := issued l n - unat v)
       \<and> hold l' = debit (hold l) n x (unat v) \<and> bal l' = bal l \<and> frz l' = frz l"
    "assets_transfer env a x y v k l = (Ok r, l') \<Longrightarrow> issued l' = issued l \<and> hold l' = hold l"
  using assms unfolding tokens_spec_def by (elim conjE, simp)+

subsection \<open>A registry of tables\<close>

record table =
  table_balance :: "nat \<Rightarrow> nat \<Rightarrow> amount"
  table_frozen :: "nat \<Rightarrow> nat \<Rightarrow> amount"
  table_lp :: "nat \<Rightarrow> nat \<Rightarrow> amount"

definition table_set :: "(nat \<Rightarrow> nat \<Rightarrow> amount) \<Rightarrow> nat \<Rightarrow> nat \<Rightarrow> amount \<Rightarrow> nat \<Rightarrow> nat \<Rightarrow> amount" where
  "table_set m a x v = m(a := (m a)(x := v))"

definition table_take :: "nat \<Rightarrow> nat \<Rightarrow> amount \<Rightarrow> table \<Rightarrow> table option" where
  "table_take a x v l =
     (if table_frozen l a x \<le> table_balance l a x \<and> v \<le> table_balance l a x - table_frozen l a x
      then Some (l\<lparr>table_balance := table_set (table_balance l) a x (table_balance l a x - v)\<rparr>) else None)"

definition table_put :: "nat \<Rightarrow> nat \<Rightarrow> amount \<Rightarrow> table \<Rightarrow> table option" where
  "table_put a x v l =
     map_option (\<lambda>b. l\<lparr>table_balance := table_set (table_balance l) a x b\<rparr>) (checked_add (table_balance l a x) v)"

definition table_call :: "'a \<Rightarrow> 'e \<Rightarrow> (table \<Rightarrow> table option) \<Rightarrow> (table, 'e, 'a) call" where
  "table_call a e f l = (case f l of Some l' \<Rightarrow> (Ok a, l') | None \<Rightarrow> (Err e, l))"

text \<open>Liquidity tokens: row \<open>n\<close> of \<open>table_lp\<close> has the issuance of token \<open>n\<close> in column 0 and the holding of
  account \<open>x\<close> in column \<open>x + 1\<close>. \<open>f\<close> is applied to both.\<close>

definition table_tokens :: "(amount \<Rightarrow> amount option) \<Rightarrow> nat \<Rightarrow> nat \<Rightarrow> table \<Rightarrow> table option" where
  "table_tokens f n x l =
     (case (f (table_lp l n 0), f (table_lp l n (Suc x))) of
        (Some t, Some h) \<Rightarrow> Some (l\<lparr>table_lp := table_set (table_set (table_lp l) n 0 t) n (Suc x) h\<rparr>)
      | _ \<Rightarrow> None)"

text \<open>Pool \<open>(a, b)\<close> lives at account \<open>1000 + 10 * a + b\<close>.\<close>

definition table_env :: "(nat, nat, nat, table) env" where
  "table_env =
     \<lparr>lp_fee = 3, pool_setup_fee = 0, pool_setup_fee_asset = 0, order_expiration = 100,
      liquidity_withdrawal_fee = 0, mint_min_liquidity = 100, max_swap_path_length = 4,
      locate = base_quote_pool_id, locator_account = (\<lambda>(a, b). Ok (1000 + 10 * a + b)),
      integer_sqrt = isqrt, permill_mul = (\<lambda>_ _. 0), lp_initial_value = Some 0, lp_increment = (\<lambda>n. Some (Suc n)),
      reducible_balance = (\<lambda>a x k l. saturating_sub (table_balance l a x) (table_frozen l a x)),
      minimum_balance = (\<lambda>_ _. 1),
      assets_withdraw = (\<lambda>a x v k. table_call \<lparr>credit_asset = a, credit_amount = v\<rparr> (External 0) (table_take a x v)),
      assets_resolve = (\<lambda>x c. table_call () c (table_put (credit_asset c) x (credit_amount c))),
      assets_transfer = (\<lambda>a x y v k. table_call v (External 1) (\<lambda>l. Option.bind (table_take a x v l) (table_put a y v))),
      assets_should_touch = (\<lambda>_ _ _. False), assets_touch = (\<lambda>_ _ _. give ()),
      increase_frozen = (\<lambda>a x v. table_call () (External 2) (\<lambda>l.
        map_option (\<lambda>f. l\<lparr>table_frozen := table_set (table_frozen l) a x f\<rparr>) (checked_add (table_frozen l a x) v))),
      decrease_frozen = (\<lambda>a x v. table_call () (External 3) (\<lambda>l.
        map_option (\<lambda>f. l\<lparr>table_frozen := table_set (table_frozen l) a x f\<rparr>) (checked_sub (table_frozen l a x) v))),
      split_credit = (\<lambda>c v. (c\<lparr>credit_amount := min v (credit_amount c)\<rparr>, c\<lparr>credit_amount := credit_amount c - min v (credit_amount c)\<rparr>)),
      drop_credit = (\<lambda>_ l. l), on_unbalanced = (\<lambda>_ l. l), lp_create = (\<lambda>_ _ _ _. give ()), lp_total_issuance = (\<lambda>n l. table_lp l n 0),
      lp_mint_into = (\<lambda>n x v. table_call v (External 4) (table_tokens (\<lambda>t. checked_add t v) n x)),
      lp_burn_from = (\<lambda>n x v k. table_call v (External 5) (table_tokens (\<lambda>t. checked_sub t v) n x)), lp_should_touch = (\<lambda>_ _ _. False),
      lp_touch = (\<lambda>_ _ _. give ())\<rparr>"

lemma table_call_Ok: "table_call a e f l = (Ok b, l') \<longleftrightarrow> b = a \<and> f l = Some l'"
  by (auto simp: table_call_def split: option.splits)

lemma table_take_Some:
  "table_take a x v l = Some l' \<Longrightarrow> unat v \<le> unat (table_balance l a x)
    \<and> (\<lambda>a x. unat (table_balance l' a x)) = debit (\<lambda>a x. unat (table_balance l a x)) a x (unat v)
    \<and> table_frozen l' = table_frozen l"
  by (auto simp: table_take_def table_set_def fun_eq_iff word_le_nat_alt unat_sub_le split: if_splits)

lemma table_put_Some:
  "table_put a x v l = Some l' \<Longrightarrow> 
    (\<lambda>a x. unat (table_balance l' a x)) = deposit (\<lambda>a x. unat (table_balance l a x)) a x (unat v)
    \<and> table_frozen l' = table_frozen l"
  by (auto simp: table_put_def table_set_def fun_eq_iff result_iffs)

lemma table_fungibles:
  "fungibles_spec table_env (\<lambda>l a x. unat (table_balance l a x)) (\<lambda>l a x. unat (table_frozen l a x))"
proof -
  have take: "unat v \<le> unat (table_balance l a x)
      \<and> (\<lambda>a x. unat (table_balance l' a x)) = debit (\<lambda>a x. unat (table_balance l a x)) a x (unat v)
      \<and> (\<lambda>a x. unat (table_frozen l' a x)) = (\<lambda>a x. unat (table_frozen l a x))"
    if "table_take a x v l = Some l'" for a x v l l'
    using table_take_Some [OF that] by simp
  have put: "(\<lambda>a x. unat (table_balance l' a x)) = deposit (\<lambda>a x. unat (table_balance l a x)) a x (unat v)
      \<and> (\<lambda>a x. unat (table_frozen l' a x)) = (\<lambda>a x. unat (table_frozen l a x))"
    if "table_put a x v l = Some l'" for a x v l l'
    using table_put_Some [OF that] by simp
  have move: "unat v \<le> unat (table_balance l a x)
      \<and> (\<lambda>a x. unat (table_balance l' a x)) = deposit (debit (\<lambda>a x. unat (table_balance l a x)) a x (unat v)) a y (unat v)
      \<and> (\<lambda>a x. unat (table_frozen l' a x)) = (\<lambda>a x. unat (table_frozen l a x))"
    if c: "Option.bind (table_take a x v l) (table_put a y v) = Some l'" for a x y v l l'
  proof -
    obtain l1 where "table_take a x v l = Some l1" "table_put a y v l1 = Some l'"
      using c by (auto simp: Option.bind_eq_Some_conv)
    then show ?thesis
      using take [of a x v l l1] put [of a y v l1 l'] by simp
  qed
  show ?thesis
    unfolding fungibles_spec_def
    by (intro conjI allI impI; simp add: table_env_def table_call_Ok unat_saturating_sub take put move;
        auto simp: table_set_def fun_eq_iff result_iffs word_le_nat_alt)
qed

lemma table_lp_moves:
  "table_take a x v l = Some l' \<Longrightarrow> table_lp l' = table_lp l"
  "table_put a x v l = Some l' \<Longrightarrow> table_lp l' = table_lp l"
  by (auto simp: table_take_def table_put_def split: if_splits)

lemma table_tokens_Some:
  assumes "table_tokens f n x l = Some l'"
  obtains t h where "f (table_lp l n 0) = Some t" "f (table_lp l n (Suc x)) = Some h"
    "table_lp l' = table_set (table_set (table_lp l) n 0 t) n (Suc x) h"
    "table_balance l' = table_balance l" "table_frozen l' = table_frozen l"
  using assms by (auto simp: table_tokens_def split: option.splits intro: that)

lemma table_tokens_spec:
  "tokens_spec table_env (\<lambda>l a x. unat (table_balance l a x)) (\<lambda>l a x. unat (table_frozen l a x))
     (\<lambda>l n. unat (table_lp l n 0)) (\<lambda>l n x. unat (table_lp l n (Suc x)))"
  unfolding tokens_spec_def
proof (intro conjI allI impI, goal_cases)
  case (1 l n)
  then show ?case
    by (simp add: table_env_def)
next
  case (12 l a x y v k r l')
  then show ?case
    by (auto simp: table_env_def table_call_Ok Option.bind_eq_Some_conv table_lp_moves)
next
  case (13 l a x y v k r l')
  then show ?case
    by (auto simp: table_env_def table_call_Ok Option.bind_eq_Some_conv table_lp_moves)
qed (auto simp: table_env_def table_call_Ok table_set_def fun_eq_iff result_iffs word_le_nat_alt unat_sub_le elim!: table_tokens_Some)

end
