(* ===== verification/Swaps.thy ===== *)
theory Swaps
  imports Ledger
begin

text \<open>
  Swaps (\<open>pallets/hybrid-orderbook/src/lib.rs\<close>: \<open>validate_swap_path\<close>, the balance paths,
  \<open>credit_swap\<close>, \<open>swap\<close>, the \<open>do_swap_*\<close> functions and the price quotes; and \<open>swap.rs\<close>, the
  traits \<open>Swap\<close> and \<open>SwapCredit\<close>). The storage layers of \<open>frame_support\<close> are parameters of the
  trait functions. A credit that the code lets go out of scope is passed to \<open>drop_credit\<close>.
\<close>

type_synonym 'asset balance_path = "('asset \<times> amount) list"

subsection \<open>Paths\<close>

text \<open>The loop of \<open>validate_swap_path\<close> over the pairs of neighbours, with the pools seen so far.\<close>

fun validate_pairs ::
  "('asset, 'acc, 'lp, 'l) env \<Rightarrow> ('asset \<times> 'asset) list \<Rightarrow> 'asset list \<Rightarrow> (pallet_error, unit) result"
where
  "validate_pairs env seen (asset1 # asset2 # rest) =
     and_then (map_err (\<lambda>_. InvalidAssetPair) (locate env asset1 asset2)) (\<lambda>pool_id.
       if pool_id \<in> set seen then Err NonUniquePath
       else validate_pairs env (pool_id # seen) (asset2 # rest))"
| "validate_pairs env seen _ = Ok ()"

definition validate_swap_path :: "('asset, 'acc, 'lp, 'l) env \<Rightarrow> 'asset list \<Rightarrow> (pallet_error, unit) result" where
  "validate_swap_path env path =
     and_then (ensure (2 \<le> length path) InvalidPath) (\<lambda>_.
     and_then (ensure (of_nat (length path) \<le> max_swap_path_length env) InvalidPath) (\<lambda>_.
     validate_pairs env [] path))"

fun path_from_out ::
  "('asset, 'acc, 'lp, 'l) env \<Rightarrow> ('asset, 'acc, 'lp, 'l) world \<Rightarrow> amount \<Rightarrow> 'asset list
    \<Rightarrow> (pallet_error, 'asset balance_path) result"
where
  "path_from_out env w amount_in [] = Ok []"
| "path_from_out env w amount_in [asset2] = Ok [(asset2, amount_in)]"
| "path_from_out env w amount_in (asset2 # asset1 # rest) =
     and_then (get_reserves env asset2 asset1 w) (\<lambda>(b_r, q_r).
     and_then (get_amount_in (lp_fee env) amount_in q_r b_r) (\<lambda>next_in.
     and_then (path_from_out env w next_in (asset1 # rest)) (\<lambda>balance_path.
     Ok ((asset2, amount_in) # balance_path))))"

definition balance_path_from_amount_out ::
  "('asset, 'acc, 'lp, 'l) env \<Rightarrow> ('asset, 'acc, 'lp, 'l) world \<Rightarrow> amount \<Rightarrow> 'asset list
    \<Rightarrow> (pallet_error, 'asset balance_path) result"
where
  "balance_path_from_amount_out env w amount_out path =
     and_then (path_from_out env w amount_out (rev path)) (\<lambda>balance_path. Ok (rev balance_path))"

fun balance_path_from_amount_in ::
  "('asset, 'acc, 'lp, 'l) env \<Rightarrow> ('asset, 'acc, 'lp, 'l) world \<Rightarrow> amount \<Rightarrow> 'asset list
    \<Rightarrow> (pallet_error, 'asset balance_path) result"
where
  "balance_path_from_amount_in env w amount_out [] = Ok []"
| "balance_path_from_amount_in env w amount_out [asset1] = Ok [(asset1, amount_out)]"
| "balance_path_from_amount_in env w amount_out (asset1 # asset2 # rest) =
     and_then (get_reserves env asset1 asset2 w) (\<lambda>(reserve_in, reserve_out).
     and_then (get_amount_out (lp_fee env) amount_out reserve_in reserve_out) (\<lambda>next_out.
     and_then (balance_path_from_amount_in env w next_out (asset2 # rest)) (\<lambda>balance_path.
     Ok ((asset1, amount_out) # balance_path))))"

subsection \<open>Swapping credits\<close>

text \<open>The account of the pool that a swap from \<open>asset1\<close> to \<open>asset2\<close> uses.\<close>

definition swap_pool_address ::
  "('asset, 'acc, 'lp, 'l) env \<Rightarrow> bool \<Rightarrow> 'asset \<Rightarrow> 'asset \<Rightarrow> (pallet_error, 'acc) result"
where
  "swap_pool_address env is_bid asset1 asset2 =
     (let (base_asset, quote_asset) = (if is_bid then (asset2, asset1) else (asset1, asset2))
      in map_err (\<lambda>_. InvalidAssetPair) (pool_address (locate env) (locator_account env) base_asset quote_asset))"

text \<open>The closure \<open>resolve_path\<close>: its loop returns at the first position that has a successor, which is
  the first one, or finds none.\<close>

definition resolve_path ::
  "('asset, 'acc, 'lp, 'l) env \<Rightarrow> bool \<Rightarrow> 'asset balance_path
    \<Rightarrow> (('asset, 'acc, 'lp, 'l) world, dispatch_error, 'asset credit) call"
where
  "resolve_path env is_bid path =
     (case path of
        (asset1, _) # (asset2, amount_out) # _ \<Rightarrow>
          bind (pallet (swap_pool_address env is_bid asset1 asset2)) (\<lambda>pool_from.
          withdraw env asset2 pool_from amount_out True)
      | _ \<Rightarrow> pallet (Err InvalidPath))"

definition credit_swap ::
  "('asset, 'acc, 'lp, 'l) env \<Rightarrow> bool \<Rightarrow> 'asset credit \<Rightarrow> 'asset balance_path
    \<Rightarrow> (('asset, 'acc, 'lp, 'l) world, 'asset credit \<times> dispatch_error, 'asset credit) call"
where
  "credit_swap env is_bid credit_in path =
     bind (rescue (resolve_path env is_bid path) (\<lambda>e. from_result (Err (credit_in, e)))) (\<lambda>credit_out.
       let release = updates (\<lambda>w. w\<lparr>ledger := drop_credit env credit_out (ledger w)\<rparr>) in
       (case path of
          (asset1, _) # (asset2, _) # _ \<Rightarrow>
            bind (rescue (from_result (swap_pool_address env is_bid asset1 asset2)) (\<lambda>_.
                    bind release (\<lambda>_. from_result (Err (credit_in, Module InvalidAssetPair))))) (\<lambda>pool_to.
            bind (rescue (on_ledger (assets_resolve env pool_to credit_in)) (\<lambda>c.
                    bind release (\<lambda>_. from_result (Err (c, Module BelowMinimum))))) (\<lambda>_.
            give credit_out))
        | _ \<Rightarrow> bind release (\<lambda>_. from_result (Err (credit_in, Module InvalidPath)))))"

definition swap ::
  "('asset, 'acc, 'lp, 'l) env \<Rightarrow> bool \<Rightarrow> 'acc \<Rightarrow> 'asset balance_path \<Rightarrow> 'acc \<Rightarrow> bool
    \<Rightarrow> (('asset, 'acc, 'lp, 'l) world, dispatch_error, unit) call"
where
  "swap env is_bid sender path send_to keep_alive =
     (let release = (\<lambda>c. updates (\<lambda>w. w\<lparr>ledger := drop_credit env c (ledger w)\<rparr>)) in
      case path of
        [] \<Rightarrow> pallet (Err InvalidPath)
      | (asset_in, amount_in) # _ \<Rightarrow>
          bind (withdraw env asset_in sender amount_in keep_alive) (\<lambda>credit_in.
          bind (rescue (credit_swap env is_bid credit_in path) (\<lambda>(c, e).
                  bind (release c) (\<lambda>_. from_result (Err e)))) (\<lambda>credit_out.
          rescue (on_ledger (assets_resolve env send_to credit_out)) (\<lambda>c.
            bind (release c) (\<lambda>_. pallet (Err BelowMinimum))))))"

subsection \<open>Swaps between accounts\<close>

definition do_swap_exact_tokens_for_tokens ::
  "('asset, 'acc, 'lp, 'l) env \<Rightarrow> 'acc \<Rightarrow> 'asset list \<Rightarrow> amount \<Rightarrow> amount option \<Rightarrow> 'acc \<Rightarrow> bool
    \<Rightarrow> (('asset, 'acc, 'lp, 'l) world, dispatch_error, amount) call"
where
  "do_swap_exact_tokens_for_tokens env sender path amount_in amount_out_min send_to keep_alive =
     bind (require (0 < amount_in) (Module ZeroAmount)) (\<lambda>_.
     bind (require (case amount_out_min of Some m \<Rightarrow> 0 < m | None \<Rightarrow> True) (Module ZeroAmount)) (\<lambda>_.
     bind (pallet (validate_swap_path env path)) (\<lambda>_.
     bind (reads (\<lambda>w. balance_path_from_amount_in env w amount_in path)) (\<lambda>r.
     bind (pallet r) (\<lambda>path'.
     bind (pallet (if path' = [] then Err InvalidPath else Ok (snd (last path')))) (\<lambda>amount_out.
     bind (require (case amount_out_min of Some m \<Rightarrow> m \<le> amount_out | None \<Rightarrow> True)
             (Module ProvidedMinimumNotSufficientForSwap)) (\<lambda>_.
     bind (swap env False sender path' send_to keep_alive) (\<lambda>_.
     bind (deposit_event (SwapExecuted sender send_to amount_in amount_out path')) (\<lambda>_.
     give amount_out)))))))))"

definition do_swap_tokens_for_exact_tokens ::
  "('asset, 'acc, 'lp, 'l) env \<Rightarrow> 'acc \<Rightarrow> 'asset list \<Rightarrow> amount \<Rightarrow> amount option \<Rightarrow> 'acc \<Rightarrow> bool
    \<Rightarrow> (('asset, 'acc, 'lp, 'l) world, dispatch_error, amount) call"
where
  "do_swap_tokens_for_exact_tokens env sender path amount_out amount_in_max send_to keep_alive =
     bind (require (0 < amount_out) (Module ZeroAmount)) (\<lambda>_.
     bind (require (case amount_in_max of Some m \<Rightarrow> 0 < m | None \<Rightarrow> True) (Module ZeroAmount)) (\<lambda>_.
     bind (pallet (validate_swap_path env path)) (\<lambda>_.
     bind (reads (\<lambda>w. balance_path_from_amount_out env w amount_out path)) (\<lambda>r.
     bind (pallet r) (\<lambda>path'.
     bind (pallet (if path' = [] then Err InvalidPath else Ok (snd (hd path')))) (\<lambda>amount_in.
     bind (require (case amount_in_max of Some m \<Rightarrow> amount_in \<le> m | None \<Rightarrow> True)
             (Module ProvidedMaximumNotSufficientForSwap)) (\<lambda>_.
     bind (swap env True sender path' send_to keep_alive) (\<lambda>_.
     bind (deposit_event (SwapExecuted sender send_to amount_in amount_out path')) (\<lambda>_.
     give amount_in)))))))))"

subsection \<open>Swaps between credits\<close>

definition do_swap_exact_credit_tokens_for_tokens ::
  "('asset, 'acc, 'lp, 'l) env \<Rightarrow> 'asset list \<Rightarrow> 'asset credit \<Rightarrow> amount option
    \<Rightarrow> (('asset, 'acc, 'lp, 'l) world, 'asset credit \<times> dispatch_error, 'asset credit) call"
where
  "do_swap_exact_credit_tokens_for_tokens env path credit_in amount_out_min =
     (let amount_in = credit_amount credit_in;
          inspect_path = (\<lambda>w.
            and_then (ensure (path \<noteq> [] \<and> hd path = credit_asset credit_in) InvalidPath) (\<lambda>_.
            and_then (ensure (amount_in \<noteq> 0) ZeroAmount) (\<lambda>_.
            and_then (ensure (case amount_out_min of Some m \<Rightarrow> m \<noteq> 0 | None \<Rightarrow> True) ZeroAmount) (\<lambda>_.
            and_then (validate_swap_path env path) (\<lambda>_.
            and_then (balance_path_from_amount_in env w amount_in path) (\<lambda>path'.
            and_then (if path' = [] then Err InvalidPath else Ok (snd (last path'))) (\<lambda>amount_out.
            and_then (ensure (case amount_out_min of Some m \<Rightarrow> m \<le> amount_out | None \<Rightarrow> True)
                        ProvidedMinimumNotSufficientForSwap) (\<lambda>_.
            Ok (path', amount_out)))))))))
      in bind (reads inspect_path) (\<lambda>r.
         bind (from_result (map_err (\<lambda>e. (credit_in, Module e)) r)) (\<lambda>(path', amount_out).
         bind (credit_swap env True credit_in path') (\<lambda>credit_out.
         bind (deposit_event (SwapCreditExecuted amount_in amount_out path')) (\<lambda>_.
         give credit_out)))))"

definition do_swap_credit_tokens_for_exact_tokens ::
  "('asset, 'acc, 'lp, 'l) env \<Rightarrow> 'asset list \<Rightarrow> 'asset credit \<Rightarrow> amount
    \<Rightarrow> (('asset, 'acc, 'lp, 'l) world, 'asset credit \<times> dispatch_error, 'asset credit \<times> 'asset credit) call"
where
  "do_swap_credit_tokens_for_exact_tokens env path credit_in amount_out =
     (let amount_in_max = credit_amount credit_in;
          inspect_path = (\<lambda>w.
            and_then (ensure (path \<noteq> [] \<and> hd path = credit_asset credit_in) InvalidPath) (\<lambda>_.
            and_then (ensure (0 < amount_in_max) ZeroAmount) (\<lambda>_.
            and_then (ensure (0 < amount_out) ZeroAmount) (\<lambda>_.
            and_then (validate_swap_path env path) (\<lambda>_.
            and_then (balance_path_from_amount_out env w amount_out path) (\<lambda>path'.
            and_then (if path' = [] then Err InvalidPath else Ok (snd (hd path'))) (\<lambda>amount_in.
            and_then (ensure (amount_in \<le> amount_in_max) ProvidedMaximumNotSufficientForSwap) (\<lambda>_.
            Ok (path', amount_in)))))))))
      in bind (reads inspect_path) (\<lambda>r.
         bind (from_result (map_err (\<lambda>e. (credit_in, Module e)) r)) (\<lambda>(path', amount_in).
         let (credit_used, credit_change) = split_credit env credit_in amount_in in
         bind (rescue (credit_swap env False credit_used path') (\<lambda>e.
                 bind (updates (\<lambda>w. w\<lparr>ledger := drop_credit env credit_change (ledger w)\<rparr>)) (\<lambda>_. from_result (Err e)))) (\<lambda>credit_out.
         bind (deposit_event (SwapCreditExecuted amount_in amount_out path')) (\<lambda>_.
         give (credit_out, credit_change))))))"

subsection \<open>The traits \<open>Swap\<close> and \<open>SwapCredit\<close>\<close>

text \<open>
  \<open>layer\<close> is \<open>with_storage_layer\<close>; \<open>with_transaction\<close> runs a closure that says whether its changes are
  to be kept, and has errors of its own.
\<close>

datatype 'r transaction_outcome = Commit 'r | Rollback 'r

definition max_path_len :: "('asset, 'acc, 'lp, 'l) env \<Rightarrow> 32 word" where
  "max_path_len env = max_swap_path_length env"

definition swap_exact_tokens_for_tokens where
  "swap_exact_tokens_for_tokens layer env sender path amount_in amount_out_min send_to keep_alive =
     bind (layer (do_swap_exact_tokens_for_tokens env sender path amount_in amount_out_min send_to keep_alive)) give"

definition swap_tokens_for_exact_tokens where
  "swap_tokens_for_exact_tokens layer env sender path amount_out amount_in_max send_to keep_alive =
     bind (layer (do_swap_tokens_for_exact_tokens env sender path amount_out amount_in_max send_to keep_alive)) give"

text \<open>The closure of the two credit swaps: the outcome of the swap decides, and is passed on as a value.\<close>

definition transactional :: "('s, 'e, 'a) call \<Rightarrow> 's \<Rightarrow> (dispatch_error, ('e, 'a) result) result transaction_outcome \<times> 's" where
  "transactional c s =
     (case c s of (res, s') \<Rightarrow>
        (case res of Ok _ \<Rightarrow> Commit (Ok res) | _ \<Rightarrow> Rollback (Ok res), s'))"

definition credit_swap_exact_tokens_for_tokens where
  "credit_swap_exact_tokens_for_tokens with_transaction env path credit_in amount_out_min =
     bind (rescue (with_transaction (transactional (do_swap_exact_credit_tokens_for_tokens env path credit_in amount_out_min)))
       (\<lambda>_. from_result (Err (\<lparr>credit_asset = credit_asset credit_in, credit_amount = 0\<rparr>, Corruption))))
       from_result"

definition credit_swap_tokens_for_exact_tokens where
  "credit_swap_tokens_for_exact_tokens with_transaction env path credit_in amount_out =
     bind (rescue (with_transaction (transactional (do_swap_credit_tokens_for_exact_tokens env path credit_in amount_out)))
       (\<lambda>_. from_result (Err (\<lparr>credit_asset = credit_asset credit_in, credit_amount = 0\<rparr>, Corruption))))
       from_result"

subsection \<open>Quotes for clients\<close>

text \<open>\<open>Result::ok\<close>.\<close>

definition result_ok :: "('e, 'a) result \<Rightarrow> ('f, 'a option) result" where
  "result_ok r = (case r of Ok a \<Rightarrow> Ok (Some a) | Err _ \<Rightarrow> Ok None | Panic \<Rightarrow> Panic | Diverge \<Rightarrow> Diverge)"

definition quote_price_exact_tokens_for_tokens ::
  "('asset, 'acc, 'lp, 'l) env \<Rightarrow> 'asset \<Rightarrow> 'asset \<Rightarrow> amount \<Rightarrow> bool \<Rightarrow> ('asset, 'acc, 'lp, 'l) world
    \<Rightarrow> (pallet_error, amount option) result"
where
  "quote_price_exact_tokens_for_tokens env asset1 asset2 amnt include_fee w =
     and_then (result_ok (pool_address (locate env) (locator_account env) asset1 asset2)) (\<lambda>found.
       case found of
         None \<Rightarrow> Ok None
       | Some pool_account \<Rightarrow>
           (let balance1 = get_balance env pool_account asset1 w;
                balance2 = get_balance env pool_account asset2 w
            in if balance1 \<noteq> 0 then
                 if include_fee then result_ok (get_amount_out (lp_fee env) amnt balance1 balance2)
                 else result_ok (quote amnt balance1 balance2)
               else Ok None))"

definition quote_price_tokens_for_exact_tokens ::
  "('asset, 'acc, 'lp, 'l) env \<Rightarrow> 'asset \<Rightarrow> 'asset \<Rightarrow> amount \<Rightarrow> bool \<Rightarrow> ('asset, 'acc, 'lp, 'l) world
    \<Rightarrow> (pallet_error, amount option) result"
where
  "quote_price_tokens_for_exact_tokens env asset1 asset2 amnt include_fee w =
     and_then (result_ok (pool_address (locate env) (locator_account env) asset1 asset2)) (\<lambda>found.
       case found of
         None \<Rightarrow> Ok None
       | Some pool_account \<Rightarrow>
           (let balance1 = get_balance env pool_account asset1 w;
                balance2 = get_balance env pool_account asset2 w
            in if balance1 \<noteq> 0 then
                 if include_fee then result_ok (get_amount_in (lp_fee env) amnt balance1 balance2)
                 else result_ok (quote amnt balance2 balance1)
               else Ok None))"

subsection \<open>Frames and termination\<close>

lemma keeps_release [keeps_intros]:
  "storage_inv I \<Longrightarrow> keeps I (updates (\<lambda>w. w\<lparr>ledger := drop_credit env c (ledger w)\<rparr>))"
  by (rule keeps_storage(3))

lemma keeps_resolve_path [keeps_intros]: "storage_inv I \<Longrightarrow> keeps I (resolve_path env is_bid path)"
  unfolding resolve_path_def by (auto split: list.splits intro!: keeps_intros)

lemma keeps_credit_swap [keeps_intros]: "storage_inv I \<Longrightarrow> keeps I (credit_swap env is_bid c path)"
  unfolding credit_swap_def Let_def by (auto split: list.splits intro!: keeps_intros)

lemma keeps_swap [keeps_intros]: "storage_inv I \<Longrightarrow> keeps I (swap env is_bid sender path send_to keep_alive)"
  unfolding swap_def Let_def by (auto split: list.splits intro!: keeps_intros)

lemma keeps_do_swap [keeps_intros]:
  "storage_inv I \<Longrightarrow> keeps I (do_swap_exact_tokens_for_tokens env sender path amount_in out_min send_to keep_alive)"
  "storage_inv I \<Longrightarrow> keeps I (do_swap_tokens_for_exact_tokens env sender path amount_out in_max send_to keep_alive)"
  unfolding do_swap_exact_tokens_for_tokens_def do_swap_tokens_for_exact_tokens_def
  by (intro keeps_intros; assumption)+

lemma validate_returns: "registries_return env \<Longrightarrow> validate_pairs env seen path \<noteq> Diverge"
  by (induction env seen path rule: validate_pairs.induct) (auto simp: and_then_Diverge registries_return_def)

lemma paths_return:
  "registries_return env \<Longrightarrow> path_from_out env w a path \<noteq> Diverge"
  by (induction env w a path rule: path_from_out.induct)
    (auto simp: and_then_Diverge get_reserves_returns)

lemma path_in_returns: "registries_return env \<Longrightarrow> balance_path_from_amount_in env w a path \<noteq> Diverge"
  by (induction env w a path rule: balance_path_from_amount_in.induct)
    (auto simp: and_then_Diverge get_reserves_returns)

lemma path_out_returns: "registries_return env \<Longrightarrow> balance_path_from_amount_out env w a path \<noteq> Diverge"
  by (auto simp: balance_path_from_amount_out_def and_then_Diverge paths_return)

lemma swap_pool_address_returns: "registries_return env \<Longrightarrow> swap_pool_address env is_bid a b \<noteq> Diverge"
  by (auto simp: swap_pool_address_def pool_address_def and_then_Diverge registries_return_def split: if_splits)

lemma returns_resolve [returns_intros]: "registries_return env \<Longrightarrow> returns (on_ledger (assets_resolve env x c))"
  by (rule returns_ledger(1)) (simp add: registries_return_def)

lemma returns_credit_swap [returns_intros]: "registries_return env \<Longrightarrow> returns (credit_swap env is_bid c path)"
  unfolding credit_swap_def resolve_path_def Let_def
  by (auto split: list.splits intro!: returns_intros simp: swap_pool_address_returns)

lemma returns_swap [returns_intros]: "registries_return env \<Longrightarrow> returns (swap env is_bid sender path send_to keep_alive)"
  unfolding swap_def Let_def by (auto split: list.splits intro!: returns_intros)

lemma returns_reads_pallet:
  "(\<And>w. g w \<noteq> Diverge) \<Longrightarrow> (\<And>a. returns (f a)) \<Longrightarrow> returns (bind (reads g) (\<lambda>r. bind (pallet r) f))"
  by (auto simp: returns_def bind_def basic_calls split: result.splits prod.splits)

lemma returns_do_swap [returns_intros]:
  assumes "registries_return env"
  shows "returns (do_swap_exact_tokens_for_tokens env sender path amount_in out_min send_to keep_alive)"
    and "returns (do_swap_tokens_for_exact_tokens env sender path amount_out in_max send_to keep_alive)"
  using assms unfolding do_swap_exact_tokens_for_tokens_def do_swap_tokens_for_exact_tokens_def validate_swap_path_def
  by (auto intro!: returns_intros returns_reads_pallet
      simp: path_in_returns path_out_returns validate_returns and_then_Diverge ensure_def split: if_splits)

subsection \<open>What a swap moves\<close>

lemma withdraw_Ok:
  assumes "withdraw env a x v k w = (Ok c, w')"
  shows "\<exists>l'. assets_withdraw env a x v (if k then Preserve else Expendable) (ledger w) = (Ok c, l') \<and> w' = w\<lparr>ledger := l'\<rparr>"
  using assms by (auto simp: withdraw_def bind_eq_Ok basic_calls on_ledger_def Let_def split: if_splits prod.splits)

lemma rescue_Ok: "rescue c h s = (Ok a, s') \<longleftrightarrow> c s = (Ok a, s') \<or> (\<exists>e s1. c s = (Err e, s1) \<and> h e s1 = (Ok a, s'))"
  by (auto simp: rescue_def split: prod.splits result.splits)

lemma on_ledger_Ok: "on_ledger c w = (r, w') \<longleftrightarrow> (\<exists>l'. c (ledger w) = (r, l') \<and> w' = w\<lparr>ledger := l'\<rparr>)"
  by (auto simp: on_ledger_def split: prod.splits)

text \<open>A swap along two assets, as four movements of the ledger.\<close>

lemma swap_two_Ok:
  assumes "swap env is_bid sender [(a, amount_in), (b, amount_out)] send_to keep_alive w = (Ok u, w')"
  obtains pool credit_in credit_out l1 l2 l3 l4 k where
    "swap_pool_address env is_bid a b = Ok pool"
    "assets_withdraw env a sender amount_in k (ledger w) = (Ok credit_in, l1)"
    "assets_withdraw env b pool amount_out Preserve l1 = (Ok credit_out, l2)"
    "assets_resolve env pool credit_in l2 = (Ok (), l3)"
    "assets_resolve env send_to credit_out l3 = (Ok (), l4)"
    "w' = w\<lparr>ledger := l4\<rparr>"
proof -
  obtain credit_in w1 credit_out w3 where
    s: "withdraw env a sender amount_in keep_alive w = (Ok credit_in, w1)"
       "credit_swap env is_bid credit_in [(a, amount_in), (b, amount_out)] w1 = (Ok credit_out, w3)"
       "on_ledger (assets_resolve env send_to credit_out) w3 = (Ok u, w')"
    using assms by (auto simp: swap_def bind_eq_Ok rescue_Ok basic_calls)
  obtain pool w2 where
    c: "swap_pool_address env is_bid a b = Ok pool"
       "withdraw env b pool amount_out True w1 = (Ok credit_out, w2)"
       "on_ledger (assets_resolve env pool credit_in) w2 = (Ok (), w3)"
    using s(2) by (auto simp: credit_swap_def resolve_path_def bind_eq_Ok rescue_Ok basic_calls Let_def result_iffs)
  show thesis
    using withdraw_Ok [OF s(1)] withdraw_Ok [OF c(2)] c(1,3) s(3)
    by (auto simp: on_ledger_Ok intro: that)
qed

lemma swap_two_balances:
  assumes "fungibles_spec env bal frz" "swap_pool_address env is_bid a b = Ok pool" "a \<noteq> b"
    and "swap env is_bid sender [(a, amount_in), (b, amount_out)] send_to keep_alive w = (Ok u, w')"
  shows "bal (ledger w') = deposit (deposit (debit (debit (bal (ledger w)) a sender (unat amount_in))
             b pool (unat amount_out)) a pool (unat amount_in)) b send_to (unat amount_out)
    \<and> unat amount_in \<le> bal (ledger w) a sender \<and> unat amount_out \<le> bal (ledger w) b pool
    \<and> frz (ledger w') = frz (ledger w) \<and> w' = w\<lparr>ledger := ledger w'\<rparr>"
  using assms(4)
proof (rule swap_two_Ok)
  note spec = fungibles_specD [OF assms(1)]
  fix pool' credit_in credit_out l1 l2 l3 l4 k
  assume "swap_pool_address env is_bid a b = Ok pool'"
    and m: "assets_withdraw env a sender amount_in k (ledger w) = (Ok credit_in, l1)"
    "assets_withdraw env b pool' amount_out Preserve l1 = (Ok credit_out, l2)"
    "assets_resolve env pool' credit_in l2 = (Ok (), l3)"
    "assets_resolve env send_to credit_out l3 = (Ok (), l4)"
    and w': "w' = w\<lparr>ledger := l4\<rparr>"
  then have "pool' = pool"
    using assms(2) by simp
  then show ?thesis
    using spec(2) [OF m(1)] spec(2) [OF m(2)] spec(3) [OF m(3)] spec(3) [OF m(4)] w' assms(3)
    by simp
qed

lemma exact_in_two_Ok:
  assumes "do_swap_exact_tokens_for_tokens env sender [a, b] amount_in None send_to keep_alive w = (Ok out, w')"
  obtains r_in r_out w1 where "get_reserves env a b w = Ok (r_in, r_out)"
    "get_amount_out (lp_fee env) amount_in r_in r_out = Ok out"
    "swap env False sender [(a, amount_in), (b, out)] send_to keep_alive w = (Ok (), w1)"
    "w' = w1\<lparr>events := events w1 @ [SwapExecuted sender send_to amount_in out [(a, amount_in), (b, out)]]\<rparr>"
  using assms
  by (auto simp: do_swap_exact_tokens_for_tokens_def bind_eq_Ok basic_calls result_iffs deposit_event_def
      split: if_splits intro: that)

lemma exact_out_two_Ok:
  assumes "do_swap_tokens_for_exact_tokens env sender [a, b] amount_out None send_to keep_alive w = (Ok i, w')"
  obtains r_in r_out w1 where "get_reserves env b a w = Ok (r_out, r_in)"
    "get_amount_in (lp_fee env) amount_out r_in r_out = Ok i"
    "swap env True sender [(a, i), (b, amount_out)] send_to keep_alive w = (Ok (), w1)"
    "w' = w1\<lparr>events := events w1 @ [SwapExecuted sender send_to i amount_out [(a, i), (b, amount_out)]]\<rparr>"
  using assms
  by (auto simp: do_swap_tokens_for_exact_tokens_def balance_path_from_amount_out_def bind_eq_Ok basic_calls
      result_iffs deposit_event_def split: if_splits intro: that)

subsection \<open>Properties\<close>




text \<open>
  A swap never goes beyond the first hop: whatever the path, the credit swap of a path of two
  or more assets is the credit swap of its first two entries, so a longer path pays out its second
  asset, not its last.
\<close>

theorem credit_swap_stops_after_first_hop:
  "credit_swap env is_bid credit_in (x # y # rest) = credit_swap env is_bid credit_in [x, y]"
  by (cases x; cases y) (simp add: credit_swap_def resolve_path_def)

end
