(* ===== verification/Matching.thy ===== *)
theory Matching
  imports Swaps
begin

text \<open>
  Orders (\<open>pallets/hybrid-orderbook/src/lib.rs\<close>: \<open>do_match_order\<close> with \<open>do_fill_pool\<close>,
  \<open>do_fill_book\<close> and \<open>handle_filled_orders\<close>, \<open>do_market_order\<close>, \<open>do_limit_order\<close>,
  \<open>do_place_order\<close>, \<open>do_cancel_order\<close>, and the calls \<open>market_order\<close>, \<open>limit_order\<close> and
  \<open>cancel_order\<close>). A pool that an operation mutates in place is passed in and returned.
\<close>

type_synonym 'acc fills = "('acc \<times> amount \<times> amount) list"

subsection \<open>Settlement\<close>

definition freeze_asset ::
  "('asset, 'acc, 'lp, 'l) env \<Rightarrow> 'acc \<Rightarrow> 'asset \<Rightarrow> amount \<Rightarrow> (('asset, 'acc, 'lp, 'l) world, dispatch_error, unit) call"
where
  "freeze_asset env who asset amnt = on_ledger (increase_frozen env asset who amnt)"

text \<open>\<open>p_adj.unwrap_or(0) + q_adj.unwrap_or(0)\<close>, an addition of \<open>u8\<close>.\<close>

definition value_decimals :: "('lp, 'book, 'q) pool \<Rightarrow> 8 word" where
  "value_decimals pool =
     (case decimal_adjustment pool of (p_adj, _, q_adj) \<Rightarrow> case_option 0 id p_adj + case_option 0 id q_adj)"

fun handle_filled_orders ::
  "('asset, 'acc, 'lp, 'l) env \<Rightarrow> bool \<Rightarrow> ('lp, 'acc) pallet_pool \<Rightarrow> 'asset \<Rightarrow> 'asset \<Rightarrow> 'acc \<Rightarrow> 'acc fills
    \<Rightarrow> (('asset, 'acc, 'lp, 'l) world, dispatch_error, unit) call"
where
  "handle_filled_orders env is_bid pool base_asset quote_asset orderer [] = give ()"
| "handle_filled_orders env is_bid pool base_asset quote_asset orderer ((owner, p, q) # filled_orders) =
     (let (asset1, asset2) = (if is_bid then (base_asset, quote_asset) else (quote_asset, base_asset)) in
      bind (from_result (if is_bid then Ok q else denom (p * q) (value_decimals pool))) (\<lambda>released.
      bind (on_ledger (decrease_frozen env asset1 owner released)) (\<lambda>_.
      let (transfer1, transfer2) = (if is_bid then (q, released) else (released, q)) in
      bind (on_ledger (assets_transfer env asset1 owner orderer transfer1 Preserve)) (\<lambda>_.
      bind (on_ledger (assets_transfer env asset2 orderer owner transfer2 Preserve)) (\<lambda>_.
      handle_filled_orders env is_bid pool base_asset quote_asset orderer filled_orders)))))"

subsection \<open>Matching\<close>

definition find_max_swap_quantity ::
  "('asset, 'acc, 'lp, 'l) env \<Rightarrow> bool \<Rightarrow> amount \<Rightarrow> ('lp, 'acc) pallet_pool \<Rightarrow> 'asset \<Rightarrow> 'asset \<Rightarrow> amount
    \<Rightarrow> ('asset, 'acc, 'lp, 'l) world \<Rightarrow> (pallet_error, amount) result"
where
  "find_max_swap_quantity env is_bid target pool base_asset quote_asset remain_orders w =
     and_then (get_reserves env base_asset quote_asset w) (\<lambda>(b_r, q_r).
     max_swap_quantity (lp_fee env) is_bid target pool b_r q_r remain_orders)"

definition do_fill_pool ::
  "('asset, 'acc, 'lp, 'l) env \<Rightarrow> bool \<Rightarrow> 'acc \<Rightarrow> amount \<Rightarrow> 'asset \<Rightarrow> 'asset
    \<Rightarrow> (('asset, 'acc, 'lp, 'l) world, dispatch_error, unit) call"
where
  "do_fill_pool env is_bid orderer quantity base_asset quote_asset =
     bind (if is_bid
           then do_swap_tokens_for_exact_tokens env orderer [quote_asset, base_asset] quantity None orderer False
           else do_swap_exact_tokens_for_tokens env orderer [base_asset, quote_asset] quantity None orderer False) (\<lambda>_.
     give ())"

definition do_fill_book ::
  "bool \<Rightarrow> ('lp, 'acc) pallet_pool \<Rightarrow> amount \<Rightarrow> amount \<Rightarrow> 'acc fills
    \<Rightarrow> (pallet_error, ('lp, 'acc) pallet_pool \<times> amount \<times> 'acc fills) result"
where
  "do_fill_book is_bid pool price order_qty filled_orders =
     and_then (map_err (\<lambda>_. ErrorOnFillOrder) (pool_fill_order pool is_bid price order_qty)) (\<lambda>(res, pool').
       let fs = (case res of None \<Rightarrow> [] | Some fs \<Rightarrow> fs);
           total = fold (\<lambda>(owner, q) acc. acc + q) fs 0
       in Ok (pool', order_qty - total, filled_orders @ map (\<lambda>(owner, q). (owner, price, q)) fs))"

text \<open>One round of the loop of \<open>do_match_order\<close>: \<^const>\<open>None\<close> is the \<open>break\<close>, otherwise the pool, what
  remains and the fills so far.\<close>

definition match_round ::
  "('asset, 'acc, 'lp, 'l) env \<Rightarrow> bool \<Rightarrow> 'acc \<Rightarrow> 'asset \<Rightarrow> 'asset \<Rightarrow> ('lp, 'acc) pallet_pool \<Rightarrow> amount \<Rightarrow> 'acc fills
    \<Rightarrow> (('asset, 'acc, 'lp, 'l) world, dispatch_error, (('lp, 'acc) pallet_pool \<times> amount \<times> 'acc fills) option) call"
where
  "match_round env is_bid orderer base_asset quote_asset pool remain_orders filled_orders =
     (case (if is_bid then next_ask_order pool else next_bid_order pool) of
        None \<Rightarrow> give None
      | Some (target_price, _) \<Rightarrow>
          bind (reads (find_max_swap_quantity env is_bid target_price pool base_asset quote_asset remain_orders)) (\<lambda>r.
          bind (pallet r) (\<lambda>swap_quantity.
          if remain_orders \<le> swap_quantity then
            bind (do_fill_pool env is_bid orderer remain_orders base_asset quote_asset) (\<lambda>_.
            give (Some (pool, 0, filled_orders)))
          else
            bind (if swap_quantity \<noteq> 0
                  then do_fill_pool env is_bid orderer swap_quantity base_asset quote_asset else give ()) (\<lambda>_.
            bind (pallet (do_fill_book is_bid pool target_price (remain_orders - swap_quantity) filled_orders)) (\<lambda>state.
            give (Some state))))))"

partial_function (option) match_loop ::
  "('asset, 'acc, 'lp, 'l) env \<Rightarrow> bool \<Rightarrow> 'acc \<Rightarrow> 'asset \<Rightarrow> 'asset \<Rightarrow> ('lp, 'acc) pallet_pool \<Rightarrow> amount \<Rightarrow> 'acc fills
    \<Rightarrow> ('asset, 'acc, 'lp, 'l) world
    \<Rightarrow> ((dispatch_error, ('lp, 'acc) pallet_pool \<times> amount \<times> 'acc fills) result \<times> ('asset, 'acc, 'lp, 'l) world) option"
where
  "match_loop env is_bid orderer base_asset quote_asset pool remain_orders filled_orders w =
     (if 0 < remain_orders then
        (case match_round env is_bid orderer base_asset quote_asset pool remain_orders filled_orders w of
           (Ok None, w') \<Rightarrow> Some (Ok (pool, remain_orders, filled_orders), w')
         | (Ok (Some (pool', remain', filled')), w') \<Rightarrow>
             match_loop env is_bid orderer base_asset quote_asset pool' remain' filled' w'
         | (Err e, w') \<Rightarrow> Some (Err e, w')
         | (Panic, w') \<Rightarrow> Some (Panic, w')
         | (Diverge, w') \<Rightarrow> Some (Diverge, w'))
      else Some (Ok (pool, remain_orders, filled_orders), w))"

lemmas match_loop_code [code] = match_loop.simps

definition do_match_order ::
  "('asset, 'acc, 'lp, 'l) env \<Rightarrow> bool \<Rightarrow> 'acc \<Rightarrow> ('lp, 'acc) pallet_pool \<Rightarrow> 'asset \<Rightarrow> 'asset \<Rightarrow> amount
    \<Rightarrow> (('asset, 'acc, 'lp, 'l) world, dispatch_error, ('lp, 'acc) pallet_pool) call"
where
  "do_match_order env is_bid orderer pool base_asset quote_asset order_qty =
     bind (\<lambda>w. case match_loop env is_bid orderer base_asset quote_asset pool order_qty [] w of
                 Some outcome \<Rightarrow> outcome
               | None \<Rightarrow> (Diverge, w)) (\<lambda>(pool', remain_orders, filled_orders).
     bind (if 0 < remain_orders
           then do_fill_pool env is_bid orderer remain_orders base_asset quote_asset else give ()) (\<lambda>_.
     bind (handle_filled_orders env is_bid pool' base_asset quote_asset orderer filled_orders) (\<lambda>_.
     bind (deposit_event (OrderMatched orderer order_qty is_bid)) (\<lambda>_.
     give pool'))))"

subsection \<open>Orders\<close>

text \<open>\<open>Pools::try_mutate\<close> with a closure that takes the pool out and puts a pool back: the storage is
  written when the closure returns.\<close>

definition try_mutate_pool ::
  "'asset \<times> 'asset \<Rightarrow> (('lp, 'acc) pallet_pool \<Rightarrow> (('asset, 'acc, 'lp, 'l) world, dispatch_error, ('lp, 'acc) pallet_pool) call)
    \<Rightarrow> (('asset, 'acc, 'lp, 'l) world, dispatch_error, unit) call"
where
  "try_mutate_pool pool_id f =
     bind (reads (\<lambda>w. ok_or (pools w pool_id) PoolNotFound)) (\<lambda>maybe_pool.
     bind (pallet maybe_pool) (\<lambda>pool.
     bind (f pool) (\<lambda>pool'.
     updates (\<lambda>w. w\<lparr>pools := (pools w)(pool_id := Some pool')\<rparr>))))"

definition locate_pool ::
  "('asset, 'acc, 'lp, 'l) env \<Rightarrow> 'asset \<Rightarrow> 'asset \<Rightarrow> pallet_error \<Rightarrow> ('s, dispatch_error, 'asset \<times> 'asset) call"
where
  "locate_pool env base_asset quote_asset e = pallet (map_err (\<lambda>_. e) (locate env base_asset quote_asset))"

definition do_market_order ::
  "('asset, 'acc, 'lp, 'l) env \<Rightarrow> bool \<Rightarrow> 'acc \<Rightarrow> 'asset \<Rightarrow> 'asset \<Rightarrow> amount
    \<Rightarrow> (('asset, 'acc, 'lp, 'l) world, dispatch_error, unit) call"
where
  "do_market_order env is_bid taker base_asset quote_asset quantity =
     bind (require (0 < quantity) (Module WrongDesiredAmount)) (\<lambda>_.
     bind (locate_pool env base_asset quote_asset InvalidAssetPair) (\<lambda>pool_id.
     try_mutate_pool pool_id (\<lambda>pool.
       bind (pallet (is_valid_order_quantity pool quantity)) (\<lambda>valid.
       bind (require valid (Module InvalidOrderQuantity)) (\<lambda>_.
       bind (do_match_order env is_bid taker pool base_asset quote_asset quantity) (\<lambda>pool'.
       bind (deposit_event (MarketOrder taker)) (\<lambda>_.
       give pool')))))))"

definition do_place_order ::
  "('asset, 'acc, 'lp, 'l) env \<Rightarrow> bool \<Rightarrow> 'asset \<times> 'asset \<Rightarrow> ('lp, 'acc) pallet_pool \<Rightarrow> 'acc \<Rightarrow> 'asset \<Rightarrow> 'asset
    \<Rightarrow> amount \<Rightarrow> amount \<Rightarrow> (('asset, 'acc, 'lp, 'l) world, dispatch_error, ('lp, 'acc) pallet_pool) call"
where
  "do_place_order env is_bid pool_id pool maker base_asset quote_asset price quantity =
     bind (if is_bid then
             bind (from_result (denom (price * quantity) (value_decimals pool))) (\<lambda>freeze_amount.
             freeze_asset env maker quote_asset freeze_amount)
           else freeze_asset env maker base_asset quantity) (\<lambda>_.
     bind (reads block_number) (\<lambda>current.
     bind (pallet (map_err (\<lambda>_. ErrorOnPlaceOrder)
             (pool_place_order current (order_expiration env) pool is_bid maker price quantity))) (\<lambda>((order_price, order_id), pool').
     bind (deposit_event (LimitOrderPlaced maker order_price pool_id order_id quantity is_bid)) (\<lambda>_.
     give pool'))))"

definition do_limit_order ::
  "('asset, 'acc, 'lp, 'l) env \<Rightarrow> 'acc \<Rightarrow> amount \<Rightarrow> amount \<Rightarrow> bool \<Rightarrow> 'asset \<Rightarrow> 'asset
    \<Rightarrow> (('asset, 'acc, 'lp, 'l) world, dispatch_error, unit) call"
where
  "do_limit_order env maker order_price order_qty is_bid base_asset quote_asset =
     bind (locate_pool env base_asset quote_asset InvalidAssetPair) (\<lambda>pool_id.
     try_mutate_pool pool_id (\<lambda>pool.
       bind (reads (get_reserves env base_asset quote_asset)) (\<lambda>reserves.
       bind (pallet reserves) (\<lambda>(b_r, q_r).
       bind (pallet (map_err (\<lambda>_. ZeroLiquidity) (pool_price pool b_r q_r))) (\<lambda>price.
       bind (pallet (is_valid_order_price pool order_price)) (\<lambda>valid_price.
       bind (require valid_price (Module InvalidOrderPrice)) (\<lambda>_.
       bind (pallet (is_valid_order_quantity pool order_qty)) (\<lambda>valid_quantity.
       bind (require valid_quantity (Module InvalidOrderQuantity)) (\<lambda>_.
       bind (if (if is_bid then price \<le> order_price else order_price \<le> price)
             then do_match_order env is_bid maker pool base_asset quote_asset order_qty
             else do_place_order env is_bid pool_id pool maker base_asset quote_asset order_price order_qty) (\<lambda>pool'.
       bind (deposit_event (LimitOrder pool_id maker order_price order_qty is_bid)) (\<lambda>_.
       give pool')))))))))))"

definition do_cancel_order ::
  "('asset, 'acc, 'lp, 'l) env \<Rightarrow> 'acc \<Rightarrow> 'asset \<Rightarrow> 'asset \<Rightarrow> amount \<Rightarrow> OrderId \<Rightarrow> amount
    \<Rightarrow> (('asset, 'acc, 'lp, 'l) world, dispatch_error, unit) call"
where
  "do_cancel_order env owner base_asset quote_asset price order_id quantity =
     bind (locate_pool env base_asset quote_asset InvalidAssetPair) (\<lambda>pool_id.
     try_mutate_pool pool_id (\<lambda>pool.
       bind (pallet (map_err (\<lambda>_. ErrorOnCancelOrder) (pool_cancel_order pool owner price order_id quantity))) (\<lambda>(_, pool').
       bind (deposit_event (OrderCancelled pool_id owner order_id)) (\<lambda>_.
       give pool'))))"

subsection \<open>Dispatchable calls\<close>

text \<open>\<open>ensure_signed\<close> of \<open>frame_system\<close> is a parameter.\<close>

definition market_order where
  "market_order ensure_signed env origin base_asset quote_asset quantity is_bid =
     bind (from_result (ensure_signed origin)) (\<lambda>taker.
     bind (do_market_order env is_bid taker base_asset quote_asset quantity) give)"

definition limit_order where
  "limit_order ensure_signed env origin base_asset quote_asset is_bid price quantity =
     bind (from_result (ensure_signed origin)) (\<lambda>maker.
     bind (do_limit_order env maker price quantity is_bid base_asset quote_asset) give)"

definition cancel_order where
  "cancel_order ensure_signed env origin base_asset quote_asset price order_id quantity =
     bind (from_result (ensure_signed origin)) (\<lambda>maybe_owner.
     bind (do_cancel_order env maybe_owner base_asset quote_asset price order_id quantity) give)"

subsection \<open>Filling from the book\<close>

definition fills_sum :: "'acc fills \<Rightarrow> nat" where
  "fills_sum fs = (\<Sum>(owner, p, q) \<leftarrow> fs. unat q)"

lemma fills_sum_simps [simp]:
  "fills_sum [] = 0" "fills_sum (fs @ gs) = fills_sum fs + fills_sum gs"
  "fills_sum (map (\<lambda>(owner, q). (owner, price, q)) hs) = fills_total hs"
  by (simp_all add: fills_sum_def fills_total_def o_def split_def)

lemma fold_fills: "fold (\<lambda>(owner, q) acc. acc + q) fs x = x + of_nat (fills_total fs)"
  by (induction fs arbitrary: x) (auto simp: add.assoc)

abbreviation levels :: "('lp, 'acc) pallet_pool \<Rightarrow> bool \<Rightarrow> amount set" where
  "levels p side \<equiv> dom (tree_map (get_orderbook p side))"

text \<open>What no order changes of a pool.\<close>

definition pool_params :: "('lp, 'book, 'q) pool \<Rightarrow> 'lp \<times> 32 word \<times> 'q \<times> 'q \<times> 8 word \<times> 8 word \<times> 8 word" where
  "pool_params p = (lp_token p, taker_fee_rate p, tick_size p, lot_size p, pool_decimals p, base_decimals p, quote_decimals p)"

lemma set_side_params [simp]: "pool_params (set_side p b n t) = pool_params p"
  by (simp add: set_side_def pool_params_def)

lemma pool_paramsD:
  "pool_params p = pool_params p' \<Longrightarrow> base_decimals p = base_decimals p'"
  "pool_params p = pool_params p' \<Longrightarrow> tick_size p = tick_size p'"
  by (simp_all add: pool_params_def)

lemma dom_fill_spec: "dom (snd (fill_spec m k q)) \<subseteq> dom m"
  by (auto simp: fill_spec_def split: option.splits if_splits)

lemma do_fill_book_Ok:
  assumes "pool_ok p"
  obtains p' new where
    "do_fill_book is_bid p price q fs = Ok (p', q - of_nat (fills_sum new), fs @ new)"
    "pool_ok p'" "get_orderbook p' is_bid = get_orderbook p is_bid" "pool_params p' = pool_params p"
    "levels p' (\<not> is_bid) \<subseteq> levels p (\<not> is_bid)"
    "pool_total p (\<not> is_bid) = pool_total p' (\<not> is_bid) + fills_sum new" "fills_sum new \<le> unat q"
    "unat (q - of_nat (fills_sum new)) = unat q - fills_sum new"
    "price \<in> levels p (\<not> is_bid) \<longrightarrow> fills_sum new = unat q \<or> levels p' (\<not> is_bid) = levels p (\<not> is_bid) - {price}"
proof -
  let ?t = "get_orderbook p (\<not> is_bid)"
  note ok = side_okD(1) [OF pool_ok_side [OF assms, of "\<not> is_bid"]]
  obtain r t where f: "book_fill_order ?t price q = Ok (r, t)"
    using book.fill_ok [OF ok, of price q] by blast
  let ?fs = "case r of None \<Rightarrow> [] | Some fs \<Rightarrow> fs" and ?p = "set_side p (\<not> is_bid) (next_id p (\<not> is_bid)) t"
  let ?new = "map (\<lambda>(owner, q). (owner, price, q)) ?fs"
  have amount: "fill_amount r = fills_total ?fs"
    by (simp add: fill_amount_def split: option.splits)
  have le: "fills_total ?fs \<le> unat q"
    using book.fill_total(2) [OF ok f] amount by simp
  then have "(of_nat (fills_total ?fs) :: amount) \<le> q" "unat (of_nat (fills_total ?fs) :: amount) = fills_total ?fs"
    by (metis le_unat_uoi word_le_nat_alt)+
  then have sub: "unat (q - of_nat (fills_total ?fs)) = unat q - fills_total ?fs"
    by (simp add: unat_sub_le)
  have pf: "pool_fill_order p is_bid price q = Ok (r, ?p)"
    using f by (simp add: pool_fill_eq)
  show thesis
  proof (rule that [of ?p ?new])
    show "do_fill_book is_bid p price q fs = Ok (?p, q - of_nat (fills_sum ?new), fs @ ?new)"
      using pf by (simp add: do_fill_book_def Let_def fold_fills)
    show "pool_ok ?p"
      by (rule pool_ok_fill [OF assms pf])
    show "levels ?p (\<not> is_bid) \<subseteq> levels p (\<not> is_bid)"
    proof -
      have "tree_map t = snd (fill_spec (tree_map ?t) price q)"
        using book.fill_ok [OF ok, of price q] f by auto
      then show ?thesis
        using dom_fill_spec by (metis set_side_sel(1))
    qed
    show "pool_total p (\<not> is_bid) = pool_total ?p (\<not> is_bid) + fills_sum ?new"
      using book.fill_total(1) [OF ok f] amount by (simp add: pool_total_def)
    show "price \<in> levels p (\<not> is_bid) \<longrightarrow> fills_sum ?new = unat q \<or> levels ?p (\<not> is_bid) = levels p (\<not> is_bid) - {price}"
      using book.fill_progress [OF ok f] amount by auto
  qed (use le sub in simp_all)
qed

subsection \<open>Rounds of the matching loop\<close>

lemma keeps_do_fill_pool [keeps_intros]: "storage_inv I \<Longrightarrow> keeps I (do_fill_pool env is_bid orderer q base_asset quote_asset)"
  unfolding do_fill_pool_def by (intro keeps_intros; assumption)

lemma keeps_match_round [keeps_intros]:
  "storage_inv I \<Longrightarrow> keeps I (match_round env is_bid orderer base_asset quote_asset p remain fs)"
  unfolding match_round_def by (auto split: option.splits intro!: keeps_intros)

lemma next_order_level:
  assumes "pool_ok p" "(if is_bid then next_ask_order p else next_bid_order p) = Some (target, i)"
  shows "target \<in> levels p (\<not> is_bid)"
proof -
  note ok = side_okD(1) [OF pool_ok_side [OF assms(1), of "\<not> is_bid"]]
  have "finite (levels p (\<not> is_bid))"
    by (rule book.finite_book [OF ok])
  moreover have "levels p (\<not> is_bid) \<noteq> {} \<and> (target = Min (levels p (\<not> is_bid)) \<or> target = Max (levels p (\<not> is_bid)))"
    using book.best_ok [OF ok] assms(2)
    by (auto simp: next_ask_order_def next_bid_order_def get_orderbook_def split: if_splits)
  ultimately show ?thesis
    using Min_in Max_in by metis
qed

text \<open>What a part of the matching loop does, from the pool and the quantity it starts with.\<close>

definition matched ::
  "bool \<Rightarrow> ('lp, 'acc) pallet_pool \<Rightarrow> amount \<Rightarrow> ('lp, 'acc) pallet_pool \<Rightarrow> amount \<Rightarrow> 'acc fills \<Rightarrow> bool"
where
  "matched is_bid p remain p' remain' new \<longleftrightarrow>
     pool_ok p' \<and> get_orderbook p' is_bid = get_orderbook p is_bid \<and> pool_params p' = pool_params p
     \<and> levels p' (\<not> is_bid) \<subseteq> levels p (\<not> is_bid)
     \<and> pool_total p (\<not> is_bid) = pool_total p' (\<not> is_bid) + fills_sum new
     \<and> fills_sum new + unat remain' \<le> unat remain"

lemma matched_refl: "pool_ok p \<Longrightarrow> matched is_bid p remain p remain []"
  by (simp add: matched_def)

lemma matched_trans:
  "matched is_bid p r p1 r1 new1 \<Longrightarrow> matched is_bid p1 r1 p2 r2 new2 \<Longrightarrow> matched is_bid p r p2 r2 (new1 @ new2)"
  unfolding matched_def by (elim conjE, intro conjI) (simp_all add: subset_trans)

lemma match_round_Ok:
  assumes "pool_ok p" "match_round env is_bid orderer base_asset quote_asset p remain fs w = (Ok (Some (p', remain', fs')), w')"
  obtains new where "fs' = fs @ new" "matched is_bid p remain p' remain' new"
    "remain' = 0 \<or> levels p' (\<not> is_bid) \<subset> levels p (\<not> is_bid)"
proof -
  let ?best = "if is_bid then next_ask_order p else next_bid_order p"
  obtain target i where nxt: "?best = Some (target, i)"
    using assms(2) by (cases ?best) (auto simp: match_round_def basic_calls split: if_splits)
  obtain m where m: "remain \<le> m \<and> p' = p \<and> remain' = 0 \<and> fs' = fs
      \<or> \<not> remain \<le> m \<and> do_fill_book is_bid p target (remain - m) fs = Ok (p', remain', fs')"
  proof -
    obtain m where body: "(if remain \<le> m then
          bind (do_fill_pool env is_bid orderer remain base_asset quote_asset) (\<lambda>_. give (Some (p, 0, fs)))
        else
          bind (if m \<noteq> 0 then do_fill_pool env is_bid orderer m base_asset quote_asset else give ()) (\<lambda>_.
          bind (pallet (do_fill_book is_bid p target (remain - m) fs)) (\<lambda>state. give (Some state)))) w =
        (Ok (Some (p', remain', fs')), w')"
      using assms(2) unfolding match_round_def nxt option.case prod.case
      by (subst (asm) bind_eq_Ok, subst (asm) bind_eq_Ok) (auto simp only: basic_calls prod.inject result.inject map_err_eq_Ok)
    show thesis
    proof (cases "remain \<le> m")
      case True
      with body show thesis
        by (intro that [of m]) (auto simp: bind_eq_Ok basic_calls)
    next
      case False
      with body show thesis
        by (intro that [of m]) (auto simp: bind_eq_Ok basic_calls result_iffs)
    qed
  qed
  from m show thesis
  proof (elim disjE conjE)
    assume "remain \<le> m" "p' = p" "remain' = 0" "fs' = fs"
    then show thesis
      using assms(1) by (intro that [of "[]"]) (simp_all add: matched_def)
  next
    assume less: "\<not> remain \<le> m" and fill: "do_fill_book is_bid p target (remain - m) fs = Ok (p', remain', fs')"
    have sub: "unat (remain - m) \<le> unat remain"
      using less by (simp add: unat_sub_le)
    obtain p1 new where b: "do_fill_book is_bid p target (remain - m) fs = Ok (p1, remain - m - of_nat (fills_sum new), fs @ new)"
      "pool_ok p1" "get_orderbook p1 is_bid = get_orderbook p is_bid" "pool_params p1 = pool_params p"
      "levels p1 (\<not> is_bid) \<subseteq> levels p (\<not> is_bid)"
      "pool_total p (\<not> is_bid) = pool_total p1 (\<not> is_bid) + fills_sum new" "fills_sum new \<le> unat (remain - m)"
      "unat (remain - m - of_nat (fills_sum new)) = unat (remain - m) - fills_sum new"
      "target \<in> levels p (\<not> is_bid) \<longrightarrow> fills_sum new = unat (remain - m) \<or> levels p1 (\<not> is_bid) = levels p (\<not> is_bid) - {target}"
      using do_fill_book_Ok [OF assms(1), of is_bid target "remain - m" fs] by blast
    have eq: "p' = p1" "remain' = remain - m - of_nat (fills_sum new)" "fs' = fs @ new"
      using fill b(1) by simp_all
    have level: "target \<in> levels p (\<not> is_bid)"
      by (rule next_order_level [OF assms(1) nxt])
    show thesis
    proof (rule that [OF eq(3)])
      show "matched is_bid p remain p' remain' new"
        using b sub unfolding eq matched_def by simp
      show "remain' = 0 \<or> levels p' (\<not> is_bid) \<subset> levels p (\<not> is_bid)"
        using b(8,9) level unfolding eq by (auto simp: unat_eq_zero)
    qed
  qed
qed

lemma match_round_None:
  assumes "match_round env is_bid orderer base_asset quote_asset p remain fs w = (Ok None, w')"
  shows "w' = w \<and> (if is_bid then next_ask_order p else next_bid_order p) = None"
  using assms
  by (cases "if is_bid then next_ask_order p else next_bid_order p")
    (auto simp: match_round_def basic_calls bind_eq_Ok split: if_splits)

lemma match_round_returns:
  assumes "pool_ok p" "base_decimals p = 0" "unat remain < 2 ^ 127" "registries_return env"
  shows "returns (match_round env is_bid orderer base_asset quote_asset p remain fs)"
proof -
  have find: "find_max_swap_quantity env is_bid target p base_asset quote_asset remain w \<noteq> Diverge" for target w
    using max_swap_returns [OF assms(2,3)] get_reserves_returns [OF assms(4)]
    by (auto simp: find_max_swap_quantity_def and_then_Diverge)
  have book: "do_fill_book is_bid p target q fs \<noteq> Diverge" for target q
    using do_fill_book_Ok [OF assms(1), of is_bid target q fs] by (metis result.distinct(5))
  have pool: "returns (do_fill_pool env is_bid orderer q base_asset quote_asset)" for q
    unfolding do_fill_pool_def using assms(4) by (intro returns_intros)
  show ?thesis
    unfolding match_round_def using find book pool
    by (auto split: option.splits intro!: returns_intros returns_reads_pallet)
qed

subsection \<open>The matching loop\<close>

lemma match_loop_invariant:
  assumes "match_loop env is_bid orderer base_asset quote_asset p remain fs w = Some (r, w')" "pool_ok p"
  shows "storage w' = storage w"
    and "r = Ok (p', remain', fs') \<Longrightarrow> \<exists>new. fs' = fs @ new \<and> matched is_bid p remain p' remain' new"
proof -
  have "pool_ok p \<longrightarrow> storage (snd y) = storage w
      \<and> (\<forall>p' remain' fs'. fst y = Ok (p', remain', fs') \<longrightarrow> (\<exists>new. fs' = fs @ new \<and> matched is_bid p remain p' remain' new))"
    if "match_loop env is_bid orderer base_asset quote_asset p remain fs w = Some y" for y
    using that
  proof (induction rule: match_loop.raw_induct [rotated 1, consumes 1, case_names step])
    case (step loop env is_bid orderer base_asset quote_asset p remain fs w y)
    let ?round = "match_round env is_bid orderer base_asset quote_asset p remain fs"
    have keep: "storage w1 = storage w" if "?round w = (r1, w1)" for r1 w1
      using keepsD [OF keeps_match_round [of "\<lambda>x. storage x = storage w"] _ that] by (simp add: storage_inv_def)
    show ?case
    proof (cases "0 < remain")
      case False
      with step(2) show ?thesis
        by (auto simp: matched_refl)
    next
      case True
      obtain r1 w1 where round: "?round w = (r1, w1)"
        by fastforce
      show ?thesis
      proof (cases "\<exists>p1 remain1 fs1. r1 = Ok (Some (p1, remain1, fs1))")
        case False
        with step(2) True round keep [OF round] show ?thesis
          by (auto simp: matched_refl split: result.splits option.splits)
      next
        case goon: True
        then obtain p1 remain1 fs1 where r1: "r1 = Ok (Some (p1, remain1, fs1))"
          by blast
        have y: "loop env is_bid orderer base_asset quote_asset p1 remain1 fs1 w1 = Some y"
          using step(2) True round r1 by simp
        show ?thesis
        proof (intro impI)
          assume ok: "pool_ok p"
          obtain new where new: "fs1 = fs @ new" "matched is_bid p remain p1 remain1 new"
            using match_round_Ok [OF ok round [unfolded r1]] by blast
          have "pool_ok p1"
            using new(2) by (simp add: matched_def)
          then show "storage (snd y) = storage w
              \<and> (\<forall>p' remain' fs'. fst y = Ok (p', remain', fs') \<longrightarrow> (\<exists>new. fs' = fs @ new \<and> matched is_bid p remain p' remain' new))"
            using step(1) [OF y] keep [OF round] new matched_trans [OF new(2)] by auto
        qed
      qed
    qed
  qed
  then show "storage w' = storage w"
    "r = Ok (p', remain', fs') \<Longrightarrow> \<exists>new. fs' = fs @ new \<and> matched is_bid p remain p' remain' new"
    using assms by (metis fst_conv snd_conv)+
qed

lemma match_loop_returns:
  assumes "pool_ok p" "base_decimals p = 0" "unat remain < 2 ^ 127" "registries_return env"
  shows "\<exists>r w'. match_loop env is_bid orderer base_asset quote_asset p remain fs w = Some (r, w') \<and> r \<noteq> Diverge"
  using assms
proof (induction "card (levels p (\<not> is_bid))" arbitrary: p remain fs w rule: less_induct)
  case less
  let ?round = "match_round env is_bid orderer base_asset quote_asset p remain fs"
  obtain r1 w1 where round: "?round w = (r1, w1)"
    by fastforce
  have "fst (?round w) \<noteq> Diverge"
    using match_round_returns [OF less.prems] unfolding returns_def by blast
  then have "r1 \<noteq> Diverge"
    by (simp add: round)
  show ?case
  proof (cases "0 < remain \<and> (\<exists>p1 remain1 fs1. r1 = Ok (Some (p1, remain1, fs1)))")
    case False
    then consider "\<not> 0 < remain" | "0 < remain" "r1 = Ok None" | e where "0 < remain" "r1 = Err e" | "0 < remain" "r1 = Panic"
      using \<open>r1 \<noteq> Diverge\<close> by (cases r1) (metis option.exhaust prod_cases3)+
    then show ?thesis
      by cases (subst match_loop.simps, simp add: round)+
  next
    case True
    then obtain p1 remain1 fs1 where r1: "r1 = Ok (Some (p1, remain1, fs1))" and pos: "0 < remain"
      by blast
    have eq: "match_loop env is_bid orderer base_asset quote_asset p remain fs w =
        match_loop env is_bid orderer base_asset quote_asset p1 remain1 fs1 w1"
      using round r1 pos by (subst match_loop.simps) simp
    obtain new where new: "fs1 = fs @ new" "matched is_bid p remain p1 remain1 new"
        "remain1 = 0 \<or> levels p1 (\<not> is_bid) \<subset> levels p (\<not> is_bid)"
      by (rule match_round_Ok [OF less.prems(1) round [unfolded r1]])
    from new(3) show ?thesis
    proof
      assume "remain1 = 0"
      then show ?thesis
        unfolding eq by (subst match_loop.simps) simp
    next
      assume "levels p1 (\<not> is_bid) \<subset> levels p (\<not> is_bid)"
      then have "card (levels p1 (\<not> is_bid)) < card (levels p (\<not> is_bid))"
        by (intro psubset_card_mono finite_tree_map)
      then show ?thesis
        unfolding eq using new(2) less.prems
        by (intro less.hyps) (auto simp: matched_def dest: pool_paramsD(1))
    qed
  qed
qed

end
