(* ===== verification/WorldInv.thy ===== *)
theory WorldInv
  imports Matching
begin

text \<open>
  Invariants of the pallet's storage. A pool that an order call stores has evolved from the pool it
  found: well-formed, with levels that are positive multiples of the tick size, and with the same
  parameters. The locale \<open>pool_invariant\<close> holds what every invariant of that kind gets from the order
  calls; \<open>world_ok\<close> and \<open>tokens_ok\<close> are interpretations of it.
\<close>

subsection \<open>The invariant of the world\<close>

text \<open>Every stored pool is well-formed, and its levels are positive multiples of its tick size.\<close>

definition levels_ok :: "('lp, 'acc) pallet_pool \<Rightarrow> bool" where
  "levels_ok p \<longleftrightarrow> (\<forall>side. \<forall>k \<in> levels p side. 0 < k \<and> k mod tick_size p = 0)"

definition pool_good :: "('lp, 'acc) pallet_pool \<Rightarrow> bool" where
  "pool_good p \<longleftrightarrow> pool_ok p \<and> levels_ok p"

definition world_ok :: "('asset, 'acc, 'lp, 'l) world \<Rightarrow> bool" where
  "world_ok w \<longleftrightarrow> (\<forall>i p. pools w i = Some p \<longrightarrow> pool_good p)"

lemma world_ok_storage: "storage_inv world_ok"
  by (simp add: world_ok_def storage_inv_def storage_def)

lemma levels_ok_subset:
  assumes "levels_ok p" "tick_size p' = tick_size p" "\<And>side. levels p' side \<subseteq> levels p side"
  shows "levels_ok p'"
  unfolding levels_ok_def assms(2)
proof (intro allI ballI)
  fix side k
  assume "k \<in> levels p' side"
  then have "k \<in> levels p side"
    by (rule subsetD [OF assms(3)])
  then show "0 < k \<and> k mod tick_size p = 0"
    using assms(1) unfolding levels_ok_def by (elim allE) (rule bspec)
qed

lemma matched_good:
  assumes "pool_good p" "matched is_bid p remain p' remain' new"
  shows "pool_good p'"
proof -
  have "levels p' side \<subseteq> levels p side" for side
  proof (cases "side = is_bid")
    case True
    then show ?thesis
      using assms(2) by (simp add: matched_def)
  next
    case False
    then have "side = (\<not> is_bid)"
      by blast
    then show ?thesis
      using assms(2) by (simp add: matched_def)
  qed
  moreover have "pool_ok p'" and params: "pool_params p' = pool_params p"
    using assms(2) by (simp_all add: matched_def)
  moreover have "tick_size p' = tick_size p"
    by (rule pool_paramsD(2) [OF params])
  ultimately show ?thesis
    using assms(1) levels_ok_subset [of p p'] by (simp add: pool_good_def)
qed

text \<open>A pool as good as \<open>p\<close>, with the same parameters.\<close>

definition evolved :: "('lp, 'acc) pallet_pool \<Rightarrow> ('lp, 'acc) pallet_pool \<Rightarrow> bool" where
  "evolved p p' \<longleftrightarrow> pool_good p' \<and> pool_params p' = pool_params p"

text \<open>A call on the pool \<open>p\<close> leaves the storage of the pallet alone and returns a pool evolved from \<open>p\<close>.\<close>

definition pool_post ::
  "('lp, 'acc) pallet_pool \<Rightarrow> (('asset, 'acc, 'lp, 'l) world, 'e, ('lp, 'acc) pallet_pool) call \<Rightarrow> bool"
where
  "pool_post p c \<longleftrightarrow> (\<forall>w r w'. c w = (r, w') \<longrightarrow> storage w' = storage w \<and> (\<forall>p'. r = Ok p' \<longrightarrow> evolved p p'))"

lemma keeps_handle_filled [keeps_intros]:
  "storage_inv I \<Longrightarrow> keeps I (handle_filled_orders env is_bid p base_asset quote_asset orderer fs)"
proof (induction fs)
  case (Cons f fs)
  then show ?case
    by (cases f) (auto simp: Let_def split: prod.splits intro!: keeps_intros)
qed (simp add: keeps_intros)

lemma do_match_order_world:
  assumes "do_match_order env is_bid orderer p base_asset quote_asset q w = (r, w')" "pool_ok p"
  shows "storage w' = storage w"
    and "r = Ok p' \<Longrightarrow> \<exists>remain new. matched is_bid p q p' remain new"
proof -
  let ?loop = "match_loop env is_bid orderer base_asset quote_asset p q [] w"
  let ?I = "\<lambda>x. storage x = storage w"
  have inv: "storage_inv ?I"
    by (simp add: storage_inv_def)
  show "storage w' = storage w"
  proof (cases ?loop)
    case (Some y)
    then obtain rl wl where l: "?loop = Some (rl, wl)"
      by (cases y) simp
    let ?rest = "\<lambda>(pool', remain, fs).
        bind (if 0 < remain then do_fill_pool env is_bid orderer remain base_asset quote_asset else give ()) (\<lambda>_.
        bind (handle_filled_orders env is_bid pool' base_asset quote_asset orderer fs) (\<lambda>_.
        bind (deposit_event (OrderMatched orderer q is_bid)) (\<lambda>_. give pool')))"
    have "keeps ?I (?rest x)" for x
      using inv by (cases x) (auto intro!: keeps_intros)
    moreover have "?I wl"
      by (rule match_loop_invariant(1) [OF l assms(2)])
    moreover have "(case rl of Ok x \<Rightarrow> ?rest x wl | Err e \<Rightarrow> (Err e, wl) | Panic \<Rightarrow> (Panic, wl) | Diverge \<Rightarrow> (Diverge, wl)) = (r, w')"
      using assms(1) l by (simp add: do_match_order_def bind_def)
    ultimately show ?thesis
      by (cases rl) (auto dest: keepsD)
  qed (use assms(1) in \<open>simp add: do_match_order_def bind_def\<close>)
  assume "r = Ok p'"
  with assms(1) obtain remain fs wl where l: "?loop = Some (Ok (p', remain, fs), wl)"
    by (auto simp: do_match_order_def bind_eq_Ok basic_calls split: option.splits)
  then have "\<exists>new. fs = [] @ new \<and> matched is_bid p q p' remain new"
    using match_loop_invariant(2) [OF l assms(2) refl] by simp
  then show "\<exists>remain new. matched is_bid p q p' remain new"
    by blast
qed

text \<open>A call that leaves the storage alone may come first.\<close>

definition quiet :: "(('asset, 'acc, 'lp, 'l) world, 'e, 'a) call \<Rightarrow> bool" where
  "quiet c \<longleftrightarrow> (\<forall>w. storage (snd (c w)) = storage w)"

lemma quiet_keeps:
  fixes c :: "(('asset, 'acc, 'lp, 'l) world, 'e, 'a) call"
  assumes "\<And>I. storage_inv I \<Longrightarrow> keeps I c"
  shows "quiet c"
  unfolding quiet_def
proof
  fix w :: "('asset, 'acc, 'lp, 'l) world"
  have "keeps (\<lambda>x. storage x = storage w) c"
    by (rule assms) (simp add: storage_inv_def)
  then show "storage (snd (c w)) = storage w"
    by (simp add: keeps_def)
qed

lemma pool_post_bind:
  assumes "quiet c" "\<And>w a w'. c w = (Ok a, w') \<Longrightarrow> pool_post p (f a)"
  shows "pool_post p (bind c f)"
  unfolding pool_post_def
proof (intro allI impI)
  fix w r w'
  assume b: "bind c f w = (r, w')"
  obtain r1 w1 where c: "c w = (r1, w1)"
    by fastforce
  have s: "storage w1 = storage w"
    using assms(1) c unfolding quiet_def by (metis snd_conv)
  show "storage w' = storage w \<and> (\<forall>p'. r = Ok p' \<longrightarrow> evolved p p')"
  proof (cases r1)
    case (Ok a)
    then have "f a w1 = (r, w')"
      using b c by (simp add: bind_def)
    then show ?thesis
      using assms(2) [OF c [unfolded Ok]] s unfolding pool_post_def by metis
  qed (use b c s in \<open>auto simp: bind_def\<close>)
qed

lemma pool_post_then:
  assumes "pool_post p c" "\<And>p'. quiet (d p')" "\<And>p' w r w'. d p' w = (Ok r, w') \<Longrightarrow> r = p'"
  shows "pool_post p (bind c d)"
  unfolding pool_post_def
proof (intro allI impI)
  fix w r w'
  assume b: "bind c d w = (r, w')"
  obtain r1 w1 where c: "c w = (r1, w1)"
    by fastforce
  then have s: "storage w1 = storage w" "\<forall>p'. r1 = Ok p' \<longrightarrow> evolved p p'"
    using assms(1) unfolding pool_post_def by blast+
  show "storage w' = storage w \<and> (\<forall>p'. r = Ok p' \<longrightarrow> evolved p p')"
  proof (cases r1)
    case (Ok p1)
    then have d: "d p1 w1 = (r, w')"
      using b c by (simp add: bind_def)
    then have "storage w' = storage w1"
      using assms(2) [of p1] unfolding quiet_def by (metis snd_conv)
    moreover have "evolved p p'" if "r = Ok p'" for p'
      using assms(3) [OF d [unfolded that]] s(2) Ok by simp
    ultimately show ?thesis
      using s(1) by simp
  qed (use b c s in \<open>auto simp: bind_def\<close>)
qed

lemma quiet_basic:
  "quiet (give a)" "quiet (from_result r)" "quiet (require b e)" "quiet (reads g)" "quiet (deposit_event ev)" "quiet (on_ledger c)"
  by (intro quiet_keeps keeps_intros; assumption)+

lemma pool_post_event: "pool_post p c \<Longrightarrow> pool_post p (bind c (\<lambda>p'. bind (deposit_event ev) (\<lambda>_. give p')))"
  by (rule pool_post_then) (auto simp: basic_calls bind_eq_Ok intro!: quiet_keeps keeps_intros)

lemma levels_ok_insert:
  assumes "levels_ok p" "tick_size p' = tick_size p" "\<And>side. levels p' side \<subseteq> insert k (levels p side)"
    "0 < k" "k mod tick_size p = 0"
  shows "levels_ok p'"
  unfolding levels_ok_def assms(2)
proof (intro allI ballI)
  fix side j
  assume "j \<in> levels p' side"
  then have "j = k \<or> j \<in> levels p side"
    using subsetD [OF assms(3)] by blast
  then show "0 < j \<and> j mod tick_size p = 0"
    using assms(1,4,5) unfolding levels_ok_def by blast
qed

lemma evolved_place:
  assumes "pool_good p" "pool_place_order cur expiration p b a k q = Ok (r, p')" "0 < k" "k mod tick_size p = 0"
  shows "evolved p p'"
proof -
  have ok: "pool_ok p"
    using assms(1) by (simp add: pool_good_def)
  have t: "levels p' b = insert k (levels p b)" "get_orderbook p' (\<not> b) = get_orderbook p (\<not> b)"
    using pool_place_ok [OF ok, where b = b and cur = cur and expiration = expiration and a = a and k = k and q = q and k' = k]
      assms(2) by (auto simp: place_spec_def split: option.splits if_splits)
  have tick: "tick_size p' = tick_size p"
    using assms(2) by (auto simp: pool_place_eq result_iffs)
  have "levels p' side \<subseteq> insert k (levels p side)" for side
    using t by (cases "side = b") (simp_all add: subset_insertI)
  then have "levels_ok p'"
    using assms(1) by (intro levels_ok_insert [OF _ tick _ assms(3,4)]) (simp_all add: pool_good_def)
  moreover have "pool_params p' = pool_params p"
    using assms(2) by (auto simp: pool_place_eq result_iffs)
  ultimately show ?thesis
    using pool_ok_place [OF ok assms(2)] by (simp add: evolved_def pool_good_def)
qed

lemma cancel_spec_dom: "cancel_spec m a k i q = Ok m' \<Longrightarrow> dom m' = dom m"
  by (cases "m k") (auto simp: cancel_spec_def result_iffs split: if_splits)

lemma evolved_cancel:
  assumes "pool_good p" "pool_cancel_order p a k i q = Ok (r, p')"
  shows "evolved p p'"
proof -
  let ?b = "is_bid_id i"
  have ok: "pool_ok p"
    using assms(1) by (simp add: pool_good_def)
  note bok = side_okD(1) [OF pool_ok_side [OF ok, of ?b]]
  obtain t where t: "book_cancel_order (get_orderbook p ?b) a k i q = Ok t" "p' = set_side p ?b (next_id p ?b) t"
    using assms(2) by (auto simp: pool_cancel_eq result_iffs)
  have "cancel_spec (tree_map (get_orderbook p ?b)) a k i q = Ok (tree_map t)"
    using book_cancel_eq [OF bok, of a k i q] t(1)
    by (cases "cancel_spec (tree_map (get_orderbook p ?b)) a k i q") simp_all
  then have "dom (tree_map t) = levels p ?b"
    by (rule cancel_spec_dom)
  then have "levels p' side \<subseteq> levels p side" for side
    by (cases "side = ?b") (simp_all add: t(2))
  then have "levels_ok p'"
    using assms(1) by (intro levels_ok_subset [of p p']) (simp_all add: pool_good_def t(2))
  moreover have "pool_params p' = pool_params p"
    by (simp add: t(2))
  ultimately show ?thesis
    using pool_ok_cancel [OF ok assms(2)] by (simp add: evolved_def pool_good_def)
qed

lemma is_valid_order_price_Ok:
  "is_valid_order_price p k = Ok True \<Longrightarrow> 0 < k \<and> k mod tick_size p = 0"
  by (auto simp: is_valid_order_price_def rem_word_def result_iffs split: if_splits)

lemma pool_post_match:
  assumes "pool_good p"
  shows "pool_post p (do_match_order env is_bid orderer p base_asset quote_asset q)"
  unfolding pool_post_def
proof (intro allI impI conjI)
  fix w r w'
  assume m: "do_match_order env is_bid orderer p base_asset quote_asset q w = (r, w')"
  have ok: "pool_ok p"
    using assms by (simp add: pool_good_def)
  show "storage w' = storage w"
    by (rule do_match_order_world(1) [OF m ok])
  fix p'
  assume "r = Ok p'"
  then obtain remain new where x: "matched is_bid p q p' remain new"
    using do_match_order_world(2) [OF m ok] by blast
  then have "pool_params p' = pool_params p"
    by (simp add: matched_def)
  with matched_good [OF assms x] show "evolved p p'"
    by (simp add: evolved_def)
qed

lemma pool_post_done: "evolved p p' \<Longrightarrow> pool_post p (bind (deposit_event ev) (\<lambda>_. give p'))"
  by (auto simp: pool_post_def deposit_event_def basic_calls bind_def storage_def)

lemma pool_post_place:
  assumes "pool_good p" "is_valid_order_price p price = Ok True"
  shows "pool_post p (do_place_order env is_bid pool_id p maker base_asset quote_asset price quantity)"
proof -
  note price = is_valid_order_price_Ok [OF assms(2)]
  show ?thesis
    unfolding do_place_order_def
  proof (rule pool_post_bind, goal_cases freeze place)
    case freeze
    show ?case
      by (rule quiet_keeps) (auto simp: freeze_asset_def intro!: keeps_intros)
  next
    case (place w a w')
    show ?case
    proof (rule pool_post_bind [OF quiet_basic(4)], rule pool_post_bind [OF quiet_basic(2)], goal_cases)
      case (1 w1 current w2 w3 res w4)
      then obtain placed p' where "res = (placed, p')" "pool_place_order current (order_expiration env) p is_bid maker price quantity = Ok (placed, p')"
        by (cases res) (auto simp: basic_calls result_iffs)
      then show ?case
        using evolved_place [OF assms(1) _ price [THEN conjunct1] price [THEN conjunct2]]
        by (cases placed) (auto intro!: pool_post_done)
    qed
  qed
qed

lemma keeps_locate [keeps_intros]: "keeps I (locate_pool env base_asset quote_asset e)"
  by (simp add: locate_pool_def keeps_basic)

locale pool_invariant =
  fixes I :: "('asset, 'acc, 'lp, 'l) world \<Rightarrow> bool"
  assumes storage_only: "storage_inv I"
    and stored_good: "I w \<Longrightarrow> pools w i = Some p \<Longrightarrow> pool_good p"
    and evolves: "I w \<Longrightarrow> pools w i = Some p \<Longrightarrow> evolved p p' \<Longrightarrow> I (w\<lparr>pools := (pools w)(i \<mapsto> p')\<rparr>)"
begin

lemma keeps_try_mutate:
  assumes "\<And>p. pool_good p \<Longrightarrow> pool_post p (f p)"
  shows "keeps I (try_mutate_pool i f)"
proof (rule keepsI)
  fix w
  assume w: "I w"
  show "I (snd (try_mutate_pool i f w))"
  proof (cases "pools w i")
    case None
    with w show ?thesis
      by (simp add: try_mutate_pool_def bind_def basic_calls)
  next
    case (Some p)
    obtain r w' where f: "f p w = (r, w')"
      by fastforce
    then have s: "storage w' = storage w" "\<forall>p'. r = Ok p' \<longrightarrow> evolved p p'"
      using assms [OF stored_good [OF w Some]] unfolding pool_post_def by blast+
    then have w': "I w'" "pools w' i = Some p"
      using storage_only w Some unfolding storage_inv_def by (metis, simp add: storage_def)
    show ?thesis
    proof (cases r)
      case (Ok p')
      then show ?thesis
        using evolves [OF w'] s(2) Some f by (simp add: try_mutate_pool_def bind_def basic_calls)
    qed (use w' Some f in \<open>simp_all add: try_mutate_pool_def bind_def basic_calls\<close>)
  qed
qed

lemma keeps_market: "keeps I (do_market_order env is_bid taker base_asset quote_asset q)"
  unfolding do_market_order_def
  by (intro keeps_bind keeps_basic keeps_locate keeps_try_mutate)
    (intro pool_post_bind quiet_basic pool_post_event pool_post_match)

lemma keeps_limit: "keeps I (do_limit_order env maker price q is_bid base_asset quote_asset)"
  unfolding do_limit_order_def
proof (intro keeps_bind keeps_locate keeps_try_mutate)
  fix i :: "'asset \<times> 'asset" and p :: "('lp, 'acc) pallet_pool"
  assume p: "pool_good p"
  let ?go = "\<lambda>cur_price. bind (if (if is_bid then cur_price \<le> price else price \<le> cur_price)
             then do_match_order env is_bid maker p base_asset quote_asset q
             else do_place_order env is_bid i p maker base_asset quote_asset price q) (\<lambda>pool'.
       bind (deposit_event (LimitOrder i maker price q is_bid)) (\<lambda>_. give pool'))"
  have go: "pool_post p (?go cur_price)" if "is_valid_order_price p price = Ok True" for cur_price
    by (rule pool_post_event) (simp add: pool_post_match [OF p] pool_post_place [OF p that])
  show "pool_post p (bind (reads (get_reserves env base_asset quote_asset)) (\<lambda>reserves.
       bind (pallet reserves) (\<lambda>(b_r, q_r).
       bind (pallet (map_err (\<lambda>_. ZeroLiquidity) (pool_price p b_r q_r))) (\<lambda>cur_price.
       bind (pallet (is_valid_order_price p price)) (\<lambda>valid_price.
       bind (require valid_price (Module InvalidOrderPrice)) (\<lambda>_.
       bind (pallet (is_valid_order_quantity p q)) (\<lambda>valid_quantity.
       bind (require valid_quantity (Module InvalidOrderQuantity)) (\<lambda>_. ?go cur_price))))))))"
  proof (rule pool_post_bind [OF quiet_basic(4)], rule pool_post_bind [OF quiet_basic(2)], goal_cases)
    case (1 w reserves w' w1 br w2)
    show ?case
      unfolding split_def
    proof (rule pool_post_bind [OF quiet_basic(2)], rule pool_post_bind [OF quiet_basic(2)], rule pool_post_bind [OF quiet_basic(3)], goal_cases)
      case (1 wa cur_price wb wc valid_price wd we u wf)
      then have "is_valid_order_price p price = Ok True"
        by (auto simp: basic_calls require_Ok result_iffs ensure_def split: if_splits)
      then show ?case
        by (intro pool_post_bind [OF quiet_basic(2)] pool_post_bind [OF quiet_basic(3)] go)
    qed
  qed
qed

lemma keeps_cancel: "keeps I (do_cancel_order env owner base_asset quote_asset price order_id q)"
  unfolding do_cancel_order_def
proof (intro keeps_bind keeps_locate keeps_try_mutate)
  fix i :: "'asset \<times> 'asset" and p :: "('lp, 'acc) pallet_pool"
  assume p: "pool_good p"
  show "pool_post p (bind (pallet (map_err (\<lambda>_. ErrorOnCancelOrder) (pool_cancel_order p owner price order_id q))) (\<lambda>(_, pool').
       bind (deposit_event (OrderCancelled i owner order_id)) (\<lambda>_. give pool')))"
  proof (rule pool_post_bind [OF quiet_basic(2)], goal_cases)
    case (1 w res w')
    then show ?case
      using evolved_cancel [OF p] by (cases res) (auto simp: basic_calls result_iffs intro!: pool_post_done)
  qed
qed

lemma keeps_order_calls:
  "keeps I (market_order ensure_signed env origin base_asset quote_asset q is_bid)"
  "keeps I (limit_order ensure_signed env origin base_asset quote_asset is_bid price q)"
  "keeps I (cancel_order ensure_signed env origin base_asset quote_asset price order_id q)"
  unfolding market_order_def limit_order_def cancel_order_def
  by (intro keeps_bind keeps_basic keeps_market keeps_limit keeps_cancel)+

end

interpretation pools_good: pool_invariant world_ok
proof
  show "storage_inv world_ok"
    by (rule world_ok_storage)
qed (auto simp: world_ok_def evolved_def)

lemma pool_good_new: "0 < tick \<Longrightarrow> 0 < lot \<Longrightarrow> pool_good (pool_new lp fee tick lot pd bd qd)"
  using pool_ok_new [of tick lot lp fee pd bd qd]
  by (auto simp: pool_good_def levels_ok_def pool_new_def get_orderbook_def book.book_new)

subsection \<open>Tokens\<close>

text \<open>Every pool has its own liquidity token, all issued before the next one. The order of the tokens is
  given by their \<open>rank\<close>.\<close>

definition tokens_distinct :: "('lp \<Rightarrow> nat) \<Rightarrow> ('asset, 'acc, 'lp, 'l) world \<Rightarrow> bool" where
  "tokens_distinct rank w \<longleftrightarrow>
     (\<forall>i p. pools w i = Some p \<longrightarrow> (\<exists>n. next_pool_asset_id w = Some n \<and> rank (lp_token p) < rank n))
     \<and> (\<forall>i j p q. pools w i = Some p \<longrightarrow> pools w j = Some q \<longrightarrow> lp_token p = lp_token q \<longrightarrow> i = j)"

text \<open>Incrementing a token gives one of a higher rank.\<close>

definition lp_fresh :: "('asset, 'acc, 'lp, 'l) env \<Rightarrow> ('lp \<Rightarrow> nat) \<Rightarrow> bool" where
  "lp_fresh env rank \<longleftrightarrow> (\<forall>n m. lp_increment env n = Some m \<longrightarrow> rank n < rank m)"

definition tokens_ok :: "('asset, 'acc, 'lp, 'l) env \<Rightarrow> ('lp \<Rightarrow> nat) \<Rightarrow> ('asset, 'acc, 'lp, 'l) world \<Rightarrow> bool" where
  "tokens_ok env rank w \<longleftrightarrow> world_ok w \<and> (lp_fresh env rank \<longrightarrow> tokens_distinct rank w)"

lemma tokens_distinct_evolved:
  assumes "tokens_distinct rank w" "pools w i = Some p" "lp_token p' = lp_token p"
  shows "tokens_distinct rank (w\<lparr>pools := (pools w)(i \<mapsto> p')\<rparr>)"
proof -
  have sel: "pools (w\<lparr>pools := (pools w)(i \<mapsto> p')\<rparr>) = (pools w)(i \<mapsto> p')"
      "next_pool_asset_id (w\<lparr>pools := (pools w)(i \<mapsto> p')\<rparr>) = next_pool_asset_id w"
    by simp_all
  have tok: "\<exists>q0. pools w j = Some q0 \<and> lp_token q = lp_token q0" if "((pools w)(i \<mapsto> p')) j = Some q" for j q
    using that assms(2,3) by (cases "j = i") simp_all
  show ?thesis
    unfolding tokens_distinct_def sel
  proof (intro conjI allI impI)
    fix j q
    assume "((pools w)(i \<mapsto> p')) j = Some q"
    from tok [OF this] assms(1) show "\<exists>n. next_pool_asset_id w = Some n \<and> rank (lp_token q) < rank n"
      unfolding tokens_distinct_def by metis
  next
    fix j k q r
    assume "((pools w)(i \<mapsto> p')) j = Some q" "((pools w)(i \<mapsto> p')) k = Some r" and t: "lp_token q = lp_token r"
    from tok [OF this(1)] tok [OF this(2)] t assms(1) show "j = k"
      unfolding tokens_distinct_def by metis
  qed
qed

interpretation pools_tokens: pool_invariant "tokens_ok env rank"
  for env :: "('asset, 'acc, 'lp, 'l) env" and rank :: "'lp \<Rightarrow> nat"
proof
  show "storage_inv (tokens_ok env rank)"
    by (auto simp: tokens_ok_def tokens_distinct_def storage_inv_def storage_def world_ok_def)
next
  fix w i p
  assume w: "tokens_ok env rank w" "pools w i = Some p"
  then show "pool_good p"
    using pools_good.stored_good unfolding tokens_ok_def by blast
  fix p'
  assume e: "evolved p p'"
  then have "lp_token p' = lp_token p"
    by (simp add: evolved_def pool_params_def)
  then show "tokens_ok env rank (w\<lparr>pools := (pools w)(i \<mapsto> p')\<rparr>)"
    using w pools_good.evolves [OF _ w(2) e] tokens_distinct_evolved [OF _ w(2)] unfolding tokens_ok_def by blast
qed

end
