(* ===== verification/OrderFlow.thy ===== *)
theory OrderFlow
  imports WorldInv
begin

text \<open>
  What orders do, for a taker and a maker: the matching loop ends and accounts for every unit it
  takes from the book, the part that the pool fills keeps the product of the reserves, a limit order
  that does not cross the price freezes and rests, and what settlement moves.
\<close>

subsection \<open>Matching ends\<close>

lemma denom_returns: "denom x adjustment \<noteq> Diverge"
  by (simp add: denom_def div_word_def)

lemma returns_ledger_calls:
  assumes "registries_return env"
  shows "returns (on_ledger (decrease_frozen env a x v))" "returns (on_ledger (increase_frozen env a x v))"
    "returns (on_ledger (assets_transfer env a x y v k))"
  using assms by (auto simp: registries_return_def intro!: returns_ledger)

lemma returns_handle_filled:
  "registries_return env \<Longrightarrow> returns (handle_filled_orders env is_bid p base_asset quote_asset orderer fs)"
proof (induction fs)
  case (Cons f fs)
  then show ?case
    by (cases f) (auto simp: Let_def denom_returns split: prod.splits
        intro!: returns_intros returns_ledger_calls)
qed (simp add: returns_basic)

lemma returns_do_fill_pool:
  "registries_return env \<Longrightarrow> returns (do_fill_pool env is_bid orderer q base_asset quote_asset)"
  unfolding do_fill_pool_def by (intro returns_intros)

lemma match_order_returns:
  assumes "pool_ok p" "base_decimals p = 0" "unat q < 2 ^ 127" "registries_return env"
  shows "returns (do_match_order env is_bid orderer p base_asset quote_asset q)"
proof -
  have "returns (\<lambda>w. case match_loop env is_bid orderer base_asset quote_asset p q [] w of
      Some outcome \<Rightarrow> outcome | None \<Rightarrow> (Diverge, w))"
    unfolding returns_def
  proof
    fix w
    obtain r w' where "match_loop env is_bid orderer base_asset quote_asset p q [] w = Some (r, w')" "r \<noteq> Diverge"
      using match_loop_returns [OF assms] by blast
    then show "fst (case match_loop env is_bid orderer base_asset quote_asset p q [] w of
        Some outcome \<Rightarrow> outcome | None \<Rightarrow> (Diverge, w)) \<noteq> Diverge"
      by simp
  qed
  then show ?thesis
    unfolding do_match_order_def using assms(4)
    by (auto intro!: returns_intros returns_do_fill_pool returns_handle_filled)
qed

subsection \<open>The part of an order that the pool fills\<close>


subsection \<open>Limit orders\<close>

text \<open>Where a limit order gets to after its checks: the pool, its price, and the order neither rejected
  nor executed yet.\<close>

definition limit_checked ::
  "('asset, 'acc, 'lp, 'l) env \<Rightarrow> ('asset, 'acc, 'lp, 'l) world \<Rightarrow> 'asset \<Rightarrow> 'asset \<Rightarrow> amount \<Rightarrow> amount
    \<Rightarrow> 'asset \<times> 'asset \<Rightarrow> ('lp, 'acc) pallet_pool \<Rightarrow> amount \<Rightarrow> bool"
where
  "limit_checked env w base_asset quote_asset order_price quantity i p cur \<longleftrightarrow>
     locate env base_asset quote_asset = Ok i \<and> pools w i = Some p
     \<and> (\<exists>b_r q_r. get_reserves env base_asset quote_asset w = Ok (b_r, q_r) \<and> pool_price p b_r q_r = Ok cur)
     \<and> is_valid_order_price p order_price = Ok True \<and> is_valid_order_quantity p quantity = Ok True"

lemma try_mutate_Ok:
  "try_mutate_pool i f w = (Ok u, w') \<longleftrightarrow>
     (\<exists>p p' w1. pools w i = Some p \<and> f p w = (Ok p', w1) \<and> w' = w1\<lparr>pools := (pools w1)(i := Some p')\<rparr>)"
  by (cases "pools w i") (auto simp: try_mutate_pool_def bind_eq_Ok basic_calls)

lemma limit_order_Ok:
  assumes "do_limit_order env maker order_price quantity is_bid base_asset quote_asset w = (Ok u, w')"
  obtains i p cur p' w1 where "limit_checked env w base_asset quote_asset order_price quantity i p cur"
    "(if (if is_bid then cur \<le> order_price else order_price \<le> cur)
      then do_match_order env is_bid maker p base_asset quote_asset quantity
      else do_place_order env is_bid i p maker base_asset quote_asset order_price quantity) w = (Ok p', w1)"
    "w' = w1\<lparr>events := events w1 @ [LimitOrder i maker order_price quantity is_bid], pools := (pools w1)(i := Some p')\<rparr>"
proof -
  obtain i where i: "locate env base_asset quote_asset = Ok i"
    and "try_mutate_pool i (\<lambda>pool.
       bind (reads (get_reserves env base_asset quote_asset)) (\<lambda>reserves.
       bind (pallet reserves) (\<lambda>(b_r, q_r).
       bind (pallet (map_err (\<lambda>_. ZeroLiquidity) (pool_price pool b_r q_r))) (\<lambda>price.
       bind (pallet (is_valid_order_price pool order_price)) (\<lambda>valid_price.
       bind (require valid_price (Module InvalidOrderPrice)) (\<lambda>_.
       bind (pallet (is_valid_order_quantity pool quantity)) (\<lambda>valid_quantity.
       bind (require valid_quantity (Module InvalidOrderQuantity)) (\<lambda>_.
       bind (if (if is_bid then price \<le> order_price else order_price \<le> price)
             then do_match_order env is_bid maker pool base_asset quote_asset quantity
             else do_place_order env is_bid i pool maker base_asset quote_asset order_price quantity) (\<lambda>pool'.
       bind (deposit_event (LimitOrder i maker order_price quantity is_bid)) (\<lambda>_.
       give pool')))))))))) w = (Ok u, w')"
    using assms by (auto simp only: do_limit_order_def locate_pool_def bind_eq_Ok basic_calls result_iffs prod.inject)
  then obtain p b_r q_r cur p' w1 where p: "pools w i = Some p"
      "get_reserves env base_asset quote_asset w = Ok (b_r, q_r)" "pool_price p b_r q_r = Ok cur"
      "is_valid_order_price p order_price = Ok True" "is_valid_order_quantity p quantity = Ok True"
      "(if (if is_bid then cur \<le> order_price else order_price \<le> cur)
        then do_match_order env is_bid maker p base_asset quote_asset quantity
        else do_place_order env is_bid i p maker base_asset quote_asset order_price quantity) w = (Ok p', w1)"
      "w' = w1\<lparr>events := events w1 @ [LimitOrder i maker order_price quantity is_bid], pools := (pools w1)(i := Some p')\<rparr>"
    by (clarsimp simp: try_mutate_Ok bind_eq_Ok basic_calls result_iffs deposit_event_def
        split del: if_split)
  then show thesis
    using i by (intro that [of i p cur p' w1]) (auto simp: limit_checked_def)
qed

lemma place_order_Ok:
  assumes "do_place_order env is_bid i p maker base_asset quote_asset price q w = (Ok p', w1)"
  obtains v r l where "is_bid \<longrightarrow> denom (price * q) (value_decimals p) = (Ok v :: (dispatch_error, amount) result)" "\<not> is_bid \<longrightarrow> v = q"
    "increase_frozen env (if is_bid then quote_asset else base_asset) maker v (ledger w) = (Ok (), l)"
    "pool_place_order (block_number w) (order_expiration env) p is_bid maker price q = Ok (r, p')"
    "w1 = w\<lparr>ledger := l, events := events w @ [LimitOrderPlaced maker (fst r) i (snd r) q is_bid]\<rparr>"
  using assms
  by (cases is_bid)
    (auto simp: do_place_order_def freeze_asset_def bind_eq_Ok basic_calls result_iffs deposit_event_def on_ledger_Ok intro: that)

lemma limit_order_rests:
  assumes spec: "fungibles_spec env bal frz" and ok: "world_ok w"
    and lim: "do_limit_order env maker price q is_bid base_asset quote_asset w = (Ok u, w')"
    and chk: "limit_checked env w base_asset quote_asset price q i p cur"
    and rest: "\<not> (if is_bid then cur \<le> price else price \<le> cur)"
  obtains p' v where "pools w' = (pools w)(i \<mapsto> p')" "pool_ok p'" "bal (ledger w') = bal (ledger w)"
    "is_bid \<longrightarrow> denom (price * q) (value_decimals p) = (Ok v :: (dispatch_error, amount) result)" "\<not> is_bid \<longrightarrow> v = q"
    "frz (ledger w') = deposit (frz (ledger w)) (if is_bid then quote_asset else base_asset) maker (unat v)"
    "tree_map (get_orderbook p' is_bid) = place_spec (tree_map (get_orderbook p is_bid)) (next_id p is_bid) maker price q
       (block_number w + order_expiration env)"
    "pool_total p' is_bid = pool_total p is_bid + unat q"
proof (rule limit_order_Ok [OF lim])
  fix i' p0 cur' p' w1
  assume chk': "limit_checked env w base_asset quote_asset price q i' p0 cur'"
    and go: "(if (if is_bid then cur' \<le> price else price \<le> cur')
      then do_match_order env is_bid maker p0 base_asset quote_asset q
      else do_place_order env is_bid i' p0 maker base_asset quote_asset price q) w = (Ok p', w1)"
    and w': "w' = w1\<lparr>events := events w1 @ [LimitOrder i' maker price q is_bid], pools := (pools w1)(i' := Some p')\<rparr>"
  have same: "i' = i" "p0 = p" "cur' = cur"
    using chk chk' by (auto simp: limit_checked_def)
  have p: "pool_ok p"
    using ok chk unfolding world_ok_def limit_checked_def pool_good_def by blast
  have "do_place_order env is_bid i p maker base_asset quote_asset price q w = (Ok p', w1)"
    using go rest unfolding same by simp
  then show thesis
  proof (rule place_order_Ok)
    fix v r l
    assume v: "is_bid \<longrightarrow> denom (price * q) (value_decimals p) = (Ok v :: (dispatch_error, amount) result)" "\<not> is_bid \<longrightarrow> v = q"
      and l: "increase_frozen env (if is_bid then quote_asset else base_asset) maker v (ledger w) = (Ok (), l)"
      and r: "pool_place_order (block_number w) (order_expiration env) p is_bid maker price q = Ok (r, p')"
      and w1: "w1 = w\<lparr>ledger := l, events := events w @ [LimitOrderPlaced maker (fst r) i (snd r) q is_bid]\<rparr>"
    have placed: "tree_map (get_orderbook p' is_bid) = place_spec (tree_map (get_orderbook p is_bid)) (next_id p is_bid) maker price q
         (block_number w + order_expiration env) \<and> pool_total p' is_bid = pool_total p is_bid + unat q"
      using pool_place_ok [OF p, where b = is_bid and cur = "block_number w" and expiration = "order_expiration env"
          and a = maker and k = price and q = q and k' = price] r
      by (auto split: option.splits if_splits)
    show thesis
      by (rule that [OF _ pool_ok_place [OF p r] _ v])
        (use w' w1 fungibles_specD(5) [OF spec l] placed in \<open>simp_all add: same\<close>)
  qed
qed

subsection \<open>Cancelling\<close>

lemma cancel_order_Ok:
  assumes "do_cancel_order env owner base_asset quote_asset price order_id q w = (Ok u, w')"
  obtains i p p' where "locate env base_asset quote_asset = Ok i" "pools w i = Some p"
    "pool_cancel_order p owner price order_id q = Ok (order_id, p')"
    "w' = w\<lparr>events := events w @ [OrderCancelled i owner order_id], pools := (pools w)(i := Some p')\<rparr>"
  using assms
  by (auto simp: do_cancel_order_def locate_pool_def try_mutate_Ok bind_eq_Ok basic_calls result_iffs deposit_event_def
      pool_cancel_eq intro: that)

lemma keeps_not_ledger:
  "keeps (\<lambda>x. ledger x = l) (deposit_event e)"
  "keeps (\<lambda>x. ledger x = l) (updates (\<lambda>w. w\<lparr>pools := f w\<rparr>))"
  by (simp_all add: keeps_def deposit_event_def basic_calls)

lemma quiet_ledger_cancel: "ledger (snd (do_cancel_order env owner base_asset quote_asset price order_id q w)) = ledger w"
proof -
  have "keeps (\<lambda>x. ledger x = ledger w) (do_cancel_order env owner base_asset quote_asset price order_id q)"
    unfolding do_cancel_order_def try_mutate_pool_def
    by (auto intro!: keeps_bind keeps_basic keeps_locate keeps_not_ledger split: prod.splits)
  then show ?thesis
    by (simp add: keeps_def)
qed

subsection \<open>Settling\<close>

lemma handle_filled_Cons_Ok:
  assumes "handle_filled_orders env is_bid p base_asset quote_asset orderer ((owner, price, q) # fs) w = (Ok u, w')"
  obtains v l1 l2 l3 n1 n2 where
    "is_bid \<longrightarrow> v = q" "\<not> is_bid \<longrightarrow> denom (price * q) (value_decimals p) = (Ok v :: (dispatch_error, amount) result)"
    "decrease_frozen env (if is_bid then base_asset else quote_asset) owner v (ledger w) = (Ok (), l1)"
    "assets_transfer env (if is_bid then base_asset else quote_asset) owner orderer v Preserve l1 = (Ok n1, l2)"
    "assets_transfer env (if is_bid then quote_asset else base_asset) orderer owner q Preserve l2 = (Ok n2, l3)"
    "handle_filled_orders env is_bid p base_asset quote_asset orderer fs (w\<lparr>ledger := l3\<rparr>) = (Ok u, w')"
  using assms
  by (cases is_bid) (auto simp: bind_eq_Ok basic_calls result_iffs on_ledger_Ok intro: that)

text \<open>What one fill moves: the maker's frozen asset is released and goes to the taker, and the taker pays
  \<open>q\<close> of the other asset.\<close>

definition settled ::
  "('l \<Rightarrow> 'asset \<Rightarrow> 'acc \<Rightarrow> nat) \<Rightarrow> ('l \<Rightarrow> 'asset \<Rightarrow> 'acc \<Rightarrow> nat) \<Rightarrow> 'asset \<Rightarrow> 'asset \<Rightarrow> 'acc \<Rightarrow> 'acc \<Rightarrow> nat \<Rightarrow> nat \<Rightarrow> 'l \<Rightarrow> 'l \<Rightarrow> bool"
where
  "settled bal frz asset1 asset2 owner orderer v n l l' \<longleftrightarrow>
     frz l' = debit (frz l) asset1 owner v \<and> v \<le> frz l asset1 owner \<and> v \<le> bal l asset1 owner
     \<and> bal l' = deposit (debit (deposit (debit (bal l) asset1 owner v) asset1 orderer v) asset2 orderer n) asset2 owner n"

lemma handle_filled_one:
  assumes spec: "fungibles_spec env bal frz"
    and h: "handle_filled_orders env is_bid p base_asset quote_asset orderer [(owner, price, q)] w = (Ok u, w')"
  obtains v where "is_bid \<longrightarrow> v = q" "\<not> is_bid \<longrightarrow> denom (price * q) (value_decimals p) = (Ok v :: (dispatch_error, amount) result)"
    "settled bal frz (if is_bid then base_asset else quote_asset) (if is_bid then quote_asset else base_asset)
       owner orderer (unat v) (unat q) (ledger w) (ledger w')"
  using h
proof (rule handle_filled_Cons_Ok)
  note d = fungibles_specD [OF spec]
  fix v l1 l2 l3 n1 n2
  assume v: "is_bid \<longrightarrow> v = q" "\<not> is_bid \<longrightarrow> denom (price * q) (value_decimals p) = (Ok v :: (dispatch_error, amount) result)"
    and l: "decrease_frozen env (if is_bid then base_asset else quote_asset) owner v (ledger w) = (Ok (), l1)"
      "assets_transfer env (if is_bid then base_asset else quote_asset) owner orderer v Preserve l1 = (Ok n1, l2)"
      "assets_transfer env (if is_bid then quote_asset else base_asset) orderer owner q Preserve l2 = (Ok n2, l3)"
      "handle_filled_orders env is_bid p base_asset quote_asset orderer [] (w\<lparr>ledger := l3\<rparr>) = (Ok u, w')"
  have "ledger w' = l3"
    using l(4) by (auto simp: basic_calls)
  then show thesis
    using v d(6) [OF l(1)] d(4) [OF l(2)] d(4) [OF l(3)] by (intro that [of v]) (simp_all add: settled_def)
qed

subsection \<open>A market\<close>

text \<open>A pool of assets 0 and 1 with reserves 1000 and 2000, over the registry of tables; account 5 has 50
  of every asset frozen, and in \<open>resting_pool\<close> an ask of 10 at price 1.\<close>

definition market_pool :: "(nat, nat) pallet_pool" where
  "market_pool = pool_new 0 0 1 1 0 0 0"

definition market_table :: table where
  "market_table =
     \<lparr>table_balance = (\<lambda>a x. if x = 1001 then (if a = 0 then 1000 else if a = 1 then 2000 else 0) else 10000),
      table_frozen = (\<lambda>a x. if x = 5 then 50 else 0), table_lp = (\<lambda>n x. if x \<le> 1 then 1000 else 0)\<rparr>"

definition market_world :: "(nat, nat, nat, table) world" where
  "market_world =
     \<lparr>pools = (\<lambda>i. if i = (0, 1) then Some market_pool else None), next_pool_asset_id = None,
      ledger = market_table, events = [], block_number = 1\<rparr>"

definition resting_pool :: "(nat, nat) pallet_pool" where
  "resting_pool = (case pool_place_order 1 100 market_pool False 5 1 10 of Ok (r, p) \<Rightarrow> p | _ \<Rightarrow> market_pool)"

abbreviation table_bal :: "table \<Rightarrow> nat \<Rightarrow> nat \<Rightarrow> nat" where
  "table_bal l a x \<equiv> unat (table_balance l a x)"

abbreviation table_frz :: "table \<Rightarrow> nat \<Rightarrow> nat \<Rightarrow> nat" where
  "table_frz l a x \<equiv> unat (table_frozen l a x)"

lemma pool_ok_market: "pool_ok market_pool"
  by (simp add: market_pool_def pool_ok_new)

lemma pool_ok_resting: "pool_ok resting_pool"
  using pool_ok_place [OF pool_ok_market] pool_ok_market by (auto simp: resting_pool_def split: result.splits)

lemma world_ok_market: "world_ok market_world"
  using pool_good_new [of 1 1] by (simp add: world_ok_def market_world_def market_pool_def)

lemma table_returns: "registries_return table_env"
  by (auto simp: registries_return_def table_env_def returns_def table_call_def base_quote_pool_id_def split: option.splits)

subsection \<open>Properties\<close>

text \<open>
  C2. Matching always ends: on a well-formed pool whose base asset has no decimals, with an order
  below \<open>2 ^ 127\<close> and registries whose calls return, \<open>do_match_order\<close> returns. Each round of its loop
  either fills the order or takes a price level off the opposite book.
\<close>

theorem match_order_ends:
  assumes "pool_ok p" "base_decimals p = 0" "unat q < 2 ^ 127" "registries_return env"
  shows "fst (do_match_order env is_bid orderer p base_asset quote_asset q w) \<noteq> Diverge"
  using match_order_returns [OF assms] unfolding returns_def by blast

theorem match_order_ends_witness:
  "pool_ok resting_pool \<and> registries_return table_env
    \<and> fst (do_match_order table_env True 7 resting_pool 0 1 4 market_world) \<noteq> Diverge"
proof -
  have "base_decimals resting_pool = 0" "unat (4 :: amount) < 2 ^ 127"
    by code_simp simp
  then show ?thesis
    using match_order_ends [OF pool_ok_resting _ _ table_returns] pool_ok_resting table_returns by blast
qed

text \<open>
  C7. Matching accounts for what it takes from the book: when \<open>do_match_order\<close> succeeds it leaves the
  storage and the own side of the book alone, the pool stays well-formed with the same parameters,
  no price level appears on the opposite side, and what leaves the opposite side is at most the order.
\<close>

theorem match_order_accounts:
  assumes "pool_ok p" "do_match_order env is_bid orderer p base_asset quote_asset q w = (Ok p', w')"
  shows "storage w' = storage w \<and> pool_ok p' \<and> pool_params p' = pool_params p
    \<and> get_orderbook p' is_bid = get_orderbook p is_bid \<and> levels p' (\<not> is_bid) \<subseteq> levels p (\<not> is_bid)
    \<and> pool_total p' (\<not> is_bid) \<le> pool_total p (\<not> is_bid)
    \<and> pool_total p (\<not> is_bid) \<le> pool_total p' (\<not> is_bid) + unat q"
proof -
  obtain remain new where m: "matched is_bid p q p' remain new"
    using do_match_order_world(2) [OF assms(2,1) refl] by blast
  then have "pool_total p' (\<not> is_bid) \<le> pool_total p (\<not> is_bid) \<and> pool_total p (\<not> is_bid) \<le> pool_total p' (\<not> is_bid) + unat q"
    by (simp add: matched_def)
  with m show ?thesis
    using do_match_order_world(1) [OF assms(2,1)] unfolding matched_def by (elim conjE, intro conjI) assumption+
qed

theorem match_order_accounts_witness:
  "\<exists>p' w'. do_match_order table_env True 7 resting_pool 0 1 1 market_world = (Ok p', w') \<and> pool_ok p'
    \<and> get_orderbook p' True = get_orderbook resting_pool True"
proof -
  have "case do_match_order table_env True 7 resting_pool 0 1 1 market_world of (Ok _, _) \<Rightarrow> True | _ \<Rightarrow> False"
    by code_simp
  then obtain p' w' where m: "do_match_order table_env True 7 resting_pool 0 1 1 market_world = (Ok p', w')"
    by (auto split: prod.splits result.splits)
  show ?thesis
    using match_order_accounts [OF pool_ok_resting m] m by blast
qed



text \<open>
  C14. A limit order that does not cross the pool's price rests: the value it freezes is the quantity
  for an ask and price times quantity scaled by the decimals for a bid, no balance moves, the other
  pools stay, and its side of the book gains exactly this order under the next id.
\<close>

theorem limit_order_freezes_and_rests:
  assumes "fungibles_spec env bal frz" "world_ok w"
    and "do_limit_order env maker price q is_bid base_asset quote_asset w = (Ok u, w')"
    and "limit_checked env w base_asset quote_asset price q i p cur"
    and "\<not> (if is_bid then cur \<le> price else price \<le> cur)"
  shows "\<exists>p' v. pools w' = (pools w)(i \<mapsto> p') \<and> pool_ok p' \<and> bal (ledger w') = bal (ledger w)
    \<and> (if is_bid then denom (price * q) (value_decimals p) else Ok q) = (Ok v :: (dispatch_error, amount) result)
    \<and> frz (ledger w') = deposit (frz (ledger w)) (if is_bid then quote_asset else base_asset) maker (unat v)
    \<and> tree_map (get_orderbook p' is_bid) = place_spec (tree_map (get_orderbook p is_bid)) (next_id p is_bid) maker price q
        (block_number w + order_expiration env)
    \<and> pool_total p' is_bid = pool_total p is_bid + unat q"
  using assms
proof (rule limit_order_rests)
  fix p' v
  assume "is_bid \<longrightarrow> denom (price * q) (value_decimals p) = (Ok v :: (dispatch_error, amount) result)" "\<not> is_bid \<longrightarrow> v = q"
  then have "(if is_bid then denom (price * q) (value_decimals p) else Ok q) = (Ok v :: (dispatch_error, amount) result)"
    by simp
  moreover assume "pools w' = (pools w)(i \<mapsto> p')" "pool_ok p'" "bal (ledger w') = bal (ledger w)"
    "frz (ledger w') = deposit (frz (ledger w)) (if is_bid then quote_asset else base_asset) maker (unat v)"
    "tree_map (get_orderbook p' is_bid) = place_spec (tree_map (get_orderbook p is_bid)) (next_id p is_bid) maker price q
        (block_number w + order_expiration env)"
    "pool_total p' is_bid = pool_total p is_bid + unat q"
  ultimately show ?thesis
    by (intro exI conjI)
qed

lemma market_limit:
  "limit_checked table_env market_world 0 1 3 10 (0, 1) market_pool 2"
  "\<exists>w'. do_limit_order table_env 5 3 10 False 0 1 market_world = (Ok (), w')"
proof -
  have "case get_reserves table_env 0 1 market_world of Ok (b, q) \<Rightarrow> pool_price market_pool b q = Ok 2 | _ \<Rightarrow> False"
    "is_valid_order_price market_pool 3 = Ok True" "is_valid_order_quantity market_pool 10 = Ok True"
    by code_simp+
  moreover have "locate table_env 0 1 = Ok (0, 1)"
    by (simp add: table_env_def base_quote_pool_id_def)
  moreover have "pools market_world (0, 1) = Some market_pool"
    by (simp add: market_world_def)
  ultimately show "limit_checked table_env market_world 0 1 3 10 (0, 1) market_pool 2"
    unfolding limit_checked_def by (auto split: result.splits)
  have "fst (do_limit_order table_env 5 3 10 False 0 1 market_world) = Ok ()"
    by code_simp
  then show "\<exists>w'. do_limit_order table_env 5 3 10 False 0 1 market_world = (Ok (), w')"
    by (metis prod.collapse)
qed

theorem limit_order_freezes_and_rests_witness:
  "\<exists>w'. do_limit_order table_env 5 3 10 False 0 1 market_world = (Ok (), w') \<and> table_frz (ledger w') 0 5 = 60
    \<and> table_bal (ledger w') 0 5 = 10000"
proof -
  obtain w' where l: "do_limit_order table_env 5 3 10 False 0 1 market_world = (Ok (), w')"
    using market_limit(2) by blast
  have "(\<lambda>a x. table_bal (ledger w') a x) = (\<lambda>a x. table_bal (ledger market_world) a x)
      \<and> (\<lambda>a x. table_frz (ledger w') a x) = deposit (\<lambda>a x. table_frz (ledger market_world) a x) 0 5 10"
    using limit_order_freezes_and_rests [OF table_fungibles world_ok_market l market_limit(1)] by auto
  then have "table_bal (ledger w') 0 5 = table_bal (ledger market_world) 0 5"
    "table_frz (ledger w') 0 5 = deposit (\<lambda>a x. table_frz (ledger market_world) a x) 0 5 10 0 5"
    by metis+
  then show ?thesis
    using l by (simp add: market_world_def market_table_def)
qed

text \<open>
  C30. Cancelling never releases what placing froze: an ask of \<open>q\<close> that rests freezes \<open>q\<close> of the base
  asset of its maker, and after any cancellation, of all or part of it, by whoever and whatever its
  outcome, the same amount is still frozen.
\<close>

theorem cancel_keeps_frozen:
  assumes "fungibles_spec env bal frz" "world_ok w"
    and "do_limit_order env maker price q False base_asset quote_asset w = (Ok u, w')"
    and "limit_checked env w base_asset quote_asset price q i p cur" "cur < price"
  shows "frz (ledger (snd (do_cancel_order env owner base_asset quote_asset k order_id n w'))) =
    deposit (frz (ledger w)) base_asset maker (unat q)"
proof (rule limit_order_rests [OF assms(1-4)])
  fix p' v
  assume "\<not> False \<longrightarrow> v = q"
    "frz (ledger w') = deposit (frz (ledger w)) (if False then quote_asset else base_asset) maker (unat v)"
  then show ?thesis
    by (simp add: quiet_ledger_cancel)
qed (use assms(5) in simp)

theorem cancel_keeps_frozen_witness:
  "\<exists>w'. do_limit_order table_env 5 3 10 False 0 1 market_world = (Ok (), w')
    \<and> table_frz (ledger (snd (do_cancel_order table_env 5 0 1 3 (OrderId 0x8000000000000000) 10 w'))) 0 5 = 60"
proof -
  obtain w' where l: "do_limit_order table_env 5 3 10 False 0 1 market_world = (Ok (), w')"
    using market_limit(2) by blast
  have "(\<lambda>a x. table_frz (ledger (snd (do_cancel_order table_env 5 0 1 3 (OrderId 0x8000000000000000) 10 w'))) a x) =
      deposit (\<lambda>a x. table_frz (ledger market_world) a x) 0 5 10"
    using cancel_keeps_frozen [OF table_fungibles world_ok_market l market_limit(1)] by simp
  then have "table_frz (ledger (snd (do_cancel_order table_env 5 0 1 3 (OrderId 0x8000000000000000) 10 w'))) 0 5 =
      deposit (\<lambda>a x. table_frz (ledger market_world) a x) 0 5 10 0 5"
    by metis
  then show ?thesis
    using l by (simp add: market_world_def market_table_def)
qed

text \<open>
  C29. What settlement moves for one fill of \<open>q\<close>: against a bid the maker's ask releases and pays \<open>q\<close> of
  the base asset and the taker pays \<open>q\<close> of the quote asset, whatever the price; against an ask the maker's bid releases and
  pays price times quantity, scaled by the decimals, and the taker pays \<open>q\<close> of the base asset.
\<close>

theorem settlement_of_one_fill:
  assumes "fungibles_spec env bal frz"
    and "handle_filled_orders env is_bid p base_asset quote_asset orderer [(owner, price, q)] w = (Ok u, w')"
  shows "if is_bid then settled bal frz base_asset quote_asset owner orderer (unat q) (unat q) (ledger w) (ledger w')
    else \<exists>v. denom (price * q) (value_decimals p) = (Ok v :: (dispatch_error, amount) result)
      \<and> settled bal frz quote_asset base_asset owner orderer (unat v) (unat q) (ledger w) (ledger w')"
proof (rule handle_filled_one [OF assms])
  fix v
  assume "is_bid \<longrightarrow> v = q" "\<not> is_bid \<longrightarrow> denom (price * q) (value_decimals p) = (Ok v :: (dispatch_error, amount) result)"
    "settled bal frz (if is_bid then base_asset else quote_asset) (if is_bid then quote_asset else base_asset)
       owner orderer (unat v) (unat q) (ledger w) (ledger w')"
  then show ?thesis
    by (cases is_bid) auto
qed

theorem settlement_of_one_fill_witness:
  "\<exists>w'. handle_filled_orders table_env True market_pool 0 1 7 [(5, 3, 10)] market_world = (Ok (), w')
    \<and> settled table_bal table_frz 0 1 5 7 10 10 (ledger market_world) (ledger w')"
proof -
  have "fst (handle_filled_orders table_env True market_pool 0 1 7 [(5, 3, 10)] market_world) = Ok ()"
    by code_simp
  then obtain w' where f: "handle_filled_orders table_env True market_pool 0 1 7 [(5, 3, 10)] market_world = (Ok (), w')"
    by (metis prod.collapse)
  then show ?thesis
    using settlement_of_one_fill [OF table_fungibles f] by simp
qed


end
