(* ===== verification/Liquidity.thy ===== *)
theory Liquidity
  imports WorldInv
begin

text \<open>
  Pools and their liquidity (\<open>pallets/hybrid-orderbook/src/lib.rs\<close>: the calls \<open>create_pool\<close>,
  \<open>add_liquidity\<close>, \<open>remove_liquidity\<close> and \<open>touch\<close>, the queries \<open>get_pool_query\<close>, \<open>get_pool_metadata\<close>
  and \<open>get_next_pool_asset_id\<close>, and \<open>integrity_test\<close>). The calls are shown to keep the invariants of the
  storage, and liquidity never changes hands at the cost of the remaining token holders.
\<close>

subsection \<open>Creating pools\<close>

text \<open>\<open>if should_touch \<open>..\<close> { touch \<open>..\<close> }\<close>, with the number of accounts touched.\<close>

definition touch_asset ::
  "('asset, 'acc, 'lp, 'l) env \<Rightarrow> 'asset \<Rightarrow> 'acc \<Rightarrow> 'acc \<Rightarrow> (('asset, 'acc, 'lp, 'l) world, dispatch_error, 32 word) call"
where
  "touch_asset env asset pool_account who =
     bind (reads (\<lambda>w. assets_should_touch env asset pool_account (ledger w))) (\<lambda>should_touch.
     if should_touch then bind (on_ledger (assets_touch env asset pool_account who)) (\<lambda>_. give 1) else give 0)"

definition touch_token ::
  "('asset, 'acc, 'lp, 'l) env \<Rightarrow> 'lp \<Rightarrow> 'acc \<Rightarrow> 'acc \<Rightarrow> (('asset, 'acc, 'lp, 'l) world, dispatch_error, 32 word) call"
where
  "touch_token env token pool_account who =
     bind (reads (\<lambda>w. lp_should_touch env token pool_account (ledger w))) (\<lambda>should_touch.
     if should_touch then bind (on_ledger (lp_touch env token pool_account who)) (\<lambda>_. give 1) else give 0)"

definition create_pool ::
  "('origin \<Rightarrow> (dispatch_error, 'acc) result) \<Rightarrow> ('asset, 'acc, 'lp, 'l) env \<Rightarrow> 'origin \<Rightarrow> 'asset \<Rightarrow> 8 word \<Rightarrow> 'asset
    \<Rightarrow> 8 word \<Rightarrow> 32 word \<Rightarrow> amount \<Rightarrow> amount \<Rightarrow> 8 word \<Rightarrow> (('asset, 'acc, 'lp, 'l) world, dispatch_error, unit) call"
where
  "create_pool ensure_signed env origin base_asset b_decimals quote_asset q_decimals taker_fee tick lot p_decimals =
     bind (from_result (ensure_signed origin)) (\<lambda>sender.
     bind (require (base_asset \<noteq> quote_asset) (Module InvalidAssetPair)) (\<lambda>_.
     bind (require (0 < tick) (Module InvalidTickSize)) (\<lambda>_.
     bind (require (0 < lot) (Module InvalidLotSize)) (\<lambda>_.
     bind (locate_pool env base_asset quote_asset InvalidAssetPair) (\<lambda>pool_id.
     bind (reads (\<lambda>w. pools w pool_id)) (\<lambda>existing.
     bind (require (existing = None) (Module PoolExists)) (\<lambda>_.
     bind (pallet (map_err (\<lambda>_. InvalidAssetPair) (locator_account env pool_id))) (\<lambda>pool_account.
     bind (withdraw env (pool_setup_fee_asset env) sender (pool_setup_fee env) True) (\<lambda>fee.
     bind (updates (\<lambda>w. w\<lparr>ledger := on_unbalanced env fee (ledger w)\<rparr>)) (\<lambda>_.
     bind (touch_asset env base_asset pool_account sender) (\<lambda>_.
     bind (touch_asset env quote_asset pool_account sender) (\<lambda>_.
     bind (reads (\<lambda>w. case next_pool_asset_id w of Some n \<Rightarrow> Some n | None \<Rightarrow> lp_initial_value env)) (\<lambda>maybe_token.
     bind (pallet (ok_or maybe_token IncorrectPoolAssetId)) (\<lambda>token.
     bind (pallet (ok_or (lp_increment env token) IncorrectPoolAssetId)) (\<lambda>next_token.
     bind (updates (\<lambda>w. w\<lparr>next_pool_asset_id := Some next_token\<rparr>)) (\<lambda>_.
     bind (on_ledger (lp_create env token pool_account False 1)) (\<lambda>_.
     bind (touch_token env token pool_account sender) (\<lambda>_.
     bind (updates (\<lambda>w. w\<lparr>pools := (pools w)(pool_id \<mapsto>
       pool_new token taker_fee tick lot p_decimals b_decimals q_decimals)\<rparr>)) (\<lambda>_.
     bind (deposit_event (PoolCreated sender pool_id pool_account token taker_fee tick lot)) (\<lambda>_.
     give ()))))))))))))))))))))"

definition get_next_pool_asset_id :: "('asset, 'acc, 'lp, 'l) env \<Rightarrow> ('asset, 'acc, 'lp, 'l) world \<Rightarrow> (pallet_error, 'lp) result" where
  "get_next_pool_asset_id env w =
     (case (case next_pool_asset_id w of Some n \<Rightarrow> Some n | None \<Rightarrow> lp_initial_value env) of
        Some n \<Rightarrow> Ok n | None \<Rightarrow> Panic)"

subsection \<open>Adding liquidity\<close>

text \<open>The amounts that \<open>add_liquidity\<close> takes, in the ratio of the reserves.\<close>

definition deposit_amounts ::
  "amount \<Rightarrow> amount \<Rightarrow> amount \<Rightarrow> amount \<Rightarrow> amount \<Rightarrow> amount \<Rightarrow> (pallet_error, amount \<times> amount) result"
where
  "deposit_amounts base_desired quote_desired base_min quote_min base_reserve quote_reserve =
     (if base_reserve = 0 \<or> quote_reserve = 0 then Ok (base_desired, quote_desired)
      else
        and_then (quote base_desired base_reserve quote_reserve) (\<lambda>quote_optimal.
        if quote_optimal \<le> quote_desired then
          and_then (ensure (quote_min \<le> quote_optimal) AssetTwoDepositDidNotMeetMinimum) (\<lambda>_.
          Ok (base_desired, quote_optimal))
        else
          and_then (quote quote_desired quote_reserve base_reserve) (\<lambda>base_optimal.
          and_then (ensure (base_optimal \<le> base_desired) OptimalAmountLessThanDesired) (\<lambda>_.
          and_then (ensure (base_min \<le> base_optimal) AssetOneDepositDidNotMeetMinimum) (\<lambda>_.
          Ok (base_optimal, quote_desired))))))"

text \<open>The tokens minted for a deposit; the first deposit also mints the minimum to the pool's account.\<close>

definition mint_for ::
  "('asset, 'acc, 'lp, 'l) env \<Rightarrow> 'lp \<Rightarrow> 'acc \<Rightarrow> amount \<Rightarrow> amount \<Rightarrow> amount \<Rightarrow> amount \<Rightarrow> amount
    \<Rightarrow> (('asset, 'acc, 'lp, 'l) world, dispatch_error, amount) call"
where
  "mint_for env token pool_account total_supply base_amount quote_amount base_reserve quote_reserve =
     (if total_supply = 0 then
        bind (pallet (calc_lp_amount_for_zero_supply (integer_sqrt env) (mint_min_liquidity env) base_amount quote_amount)) (\<lambda>lp_amount.
        bind (on_ledger (lp_mint_into env token pool_account (mint_min_liquidity env))) (\<lambda>_.
        give lp_amount))
      else
        bind (pallet (mul_div base_amount total_supply base_reserve)) (\<lambda>side1.
        bind (pallet (mul_div quote_amount total_supply quote_reserve)) (\<lambda>side2.
        give (min side1 side2))))"

definition add_liquidity ::
  "('origin \<Rightarrow> (dispatch_error, 'acc) result) \<Rightarrow> ('asset, 'acc, 'lp, 'l) env \<Rightarrow> 'origin \<Rightarrow> 'asset \<Rightarrow> 'asset
    \<Rightarrow> amount \<Rightarrow> amount \<Rightarrow> amount \<Rightarrow> amount \<Rightarrow> 'acc \<Rightarrow> (('asset, 'acc, 'lp, 'l) world, dispatch_error, unit) call"
where
  "add_liquidity ensure_signed env origin base_asset quote_asset base_desired quote_desired base_min quote_min mint_to =
     bind (from_result (ensure_signed origin)) (\<lambda>sender.
     bind (locate_pool env base_asset quote_asset InvalidAssetPair) (\<lambda>pool_id.
     bind (require (0 < base_desired \<and> 0 < quote_desired) (Module WrongDesiredAmount)) (\<lambda>_.
     bind (reads (\<lambda>w. ok_or (pools w pool_id) PoolNotFound)) (\<lambda>maybe_pool.
     bind (pallet maybe_pool) (\<lambda>pool.
     bind (pallet (map_err (\<lambda>_. InvalidAssetPair) (locator_account env pool_id))) (\<lambda>pool_account.
     bind (reads (get_balance env pool_account base_asset)) (\<lambda>base_reserve.
     bind (reads (get_balance env pool_account quote_asset)) (\<lambda>quote_reserve.
     bind (pallet (deposit_amounts base_desired quote_desired base_min quote_min base_reserve quote_reserve)) (\<lambda>(base_amount, quote_amount).
     bind (reads (\<lambda>w. minimum_balance env base_asset (ledger w))) (\<lambda>base_minimum.
     bind (require (base_minimum \<le> saturating_add base_amount base_reserve) (Module AmountOneLessThanMinimal)) (\<lambda>_.
     bind (reads (\<lambda>w. minimum_balance env quote_asset (ledger w))) (\<lambda>quote_minimum.
     bind (require (quote_minimum \<le> saturating_add quote_amount quote_reserve) (Module AmountTwoLessThanMinimal)) (\<lambda>_.
     bind (on_ledger (assets_transfer env base_asset sender pool_account base_amount Preserve)) (\<lambda>_.
     bind (on_ledger (assets_transfer env quote_asset sender pool_account quote_amount Preserve)) (\<lambda>_.
     bind (reads (\<lambda>w. lp_total_issuance env (lp_token pool) (ledger w))) (\<lambda>total_supply.
     bind (mint_for env (lp_token pool) pool_account total_supply base_amount quote_amount base_reserve quote_reserve) (\<lambda>lp_amount.
     bind (require (mint_min_liquidity env < lp_amount) (Module InsufficientLiquidityMinted)) (\<lambda>_.
     bind (on_ledger (lp_mint_into env (lp_token pool) mint_to lp_amount)) (\<lambda>_.
     bind (deposit_event (LiquidityAdded sender mint_to pool_id base_amount quote_amount (lp_token pool) lp_amount)) (\<lambda>_.
     give ()))))))))))))))))))))"

subsection \<open>Removing liquidity\<close>

definition remove_liquidity ::
  "('origin \<Rightarrow> (dispatch_error, 'acc) result) \<Rightarrow> ('asset, 'acc, 'lp, 'l) env \<Rightarrow> 'origin \<Rightarrow> 'asset \<Rightarrow> 'asset
    \<Rightarrow> amount \<Rightarrow> amount \<Rightarrow> amount \<Rightarrow> 'acc \<Rightarrow> (('asset, 'acc, 'lp, 'l) world, dispatch_error, unit) call"
where
  "remove_liquidity ensure_signed env origin base_asset quote_asset lp_token_burn base_min_receive quote_min_receive withdraw_to =
     bind (from_result (ensure_signed origin)) (\<lambda>sender.
     bind (locate_pool env base_asset quote_asset InvalidAssetPair) (\<lambda>pool_id.
     bind (require (0 < lp_token_burn) (Module ZeroLiquidity)) (\<lambda>_.
     bind (reads (\<lambda>w. ok_or (pools w pool_id) PoolNotFound)) (\<lambda>maybe_pool.
     bind (pallet maybe_pool) (\<lambda>pool.
     bind (pallet (map_err (\<lambda>_. InvalidAssetPair) (locator_account env pool_id))) (\<lambda>pool_account.
     bind (reads (get_balance env pool_account base_asset)) (\<lambda>base_reserve.
     bind (reads (get_balance env pool_account quote_asset)) (\<lambda>quote_reserve.
     bind (reads (\<lambda>w. lp_total_issuance env (lp_token pool) (ledger w))) (\<lambda>total_supply.
     let withdrawal_fee_amount = permill_mul env (liquidity_withdrawal_fee env) lp_token_burn;
         lp_redeem_amount = saturating_sub lp_token_burn withdrawal_fee_amount
     in
     bind (pallet (mul_div lp_redeem_amount base_reserve total_supply)) (\<lambda>base_amount.
     bind (pallet (mul_div lp_redeem_amount quote_reserve total_supply)) (\<lambda>quote_amount.
     bind (require (base_amount \<noteq> 0 \<and> base_min_receive \<le> base_amount) (Module AssetOneWithdrawalDidNotMeetMinimum)) (\<lambda>_.
     bind (require (quote_amount \<noteq> 0 \<and> quote_min_receive \<le> quote_amount) (Module AssetTwoWithdrawalDidNotMeetMinimum)) (\<lambda>_.
     bind (reads (\<lambda>w. minimum_balance env base_asset (ledger w))) (\<lambda>base_minimum.
     bind (require (base_minimum \<le> saturating_sub base_reserve base_amount) (Module ReserveLeftLessThanMinimal)) (\<lambda>_.
     bind (reads (\<lambda>w. minimum_balance env quote_asset (ledger w))) (\<lambda>quote_minimum.
     bind (require (quote_minimum \<le> saturating_sub quote_reserve quote_amount) (Module ReserveLeftLessThanMinimal)) (\<lambda>_.
     bind (on_ledger (lp_burn_from env (lp_token pool) sender lp_token_burn Expendable)) (\<lambda>_.
     bind (on_ledger (assets_transfer env base_asset pool_account withdraw_to base_amount Expendable)) (\<lambda>_.
     bind (on_ledger (assets_transfer env quote_asset pool_account withdraw_to quote_amount Expendable)) (\<lambda>_.
     bind (deposit_event (LiquidityRemoved sender withdraw_to pool_id base_amount quote_amount (lp_token pool) lp_token_burn
       (liquidity_withdrawal_fee env))) (\<lambda>_.
     give ())))))))))))))))))))))"

subsection \<open>Touching and queries\<close>

text \<open>The weight refunded is the weight of touching as many accounts as were touched.\<close>

definition touch ::
  "('origin \<Rightarrow> (dispatch_error, 'acc) result) \<Rightarrow> (32 word \<Rightarrow> 'weight) \<Rightarrow> ('asset, 'acc, 'lp, 'l) env \<Rightarrow> 'origin \<Rightarrow> 'asset \<Rightarrow> 'asset
    \<Rightarrow> (('asset, 'acc, 'lp, 'l) world, dispatch_error, 'weight option) call"
where
  "touch ensure_signed touch_weight env origin base_asset quote_asset =
     bind (from_result (ensure_signed origin)) (\<lambda>who.
     bind (locate_pool env base_asset quote_asset InvalidAssetPair) (\<lambda>pool_id.
     bind (reads (\<lambda>w. ok_or (pools w pool_id) PoolNotFound)) (\<lambda>maybe_pool.
     bind (pallet maybe_pool) (\<lambda>pool.
     bind (pallet (map_err (\<lambda>_. InvalidAssetPair) (locator_account env pool_id))) (\<lambda>pool_account.
     bind (touch_asset env base_asset pool_account who) (\<lambda>n1.
     bind (touch_asset env quote_asset pool_account who) (\<lambda>n2.
     bind (touch_token env (lp_token pool) pool_account who) (\<lambda>n3.
     bind (deposit_event (Touched pool_id who)) (\<lambda>_.
     give (Some (touch_weight (n1 + n2 + n3))))))))))))"

definition get_pool_query ::
  "('asset, 'acc, 'lp, 'l) env \<Rightarrow> 'asset \<Rightarrow> 'asset \<Rightarrow> ('asset, 'acc, 'lp, 'l) world
    \<Rightarrow> (pallet_error, ((128, 'acc, 32 word) orderbook, amount) pool_query) result"
where
  "get_pool_query env base_asset quote_asset w =
     and_then (map_err (\<lambda>_. PoolNotFound) (locate env base_asset quote_asset)) (\<lambda>pool_id.
     and_then (ok_or (pools w pool_id) PoolNotFound) (\<lambda>pool.
     and_then (get_reserves env base_asset quote_asset w) (\<lambda>(b_r, q_r).
     and_then (pool_price pool b_r q_r) (\<lambda>price.
     Ok (to_pool_query pool b_r q_r price)))))"

definition get_pool_metadata ::
  "('asset, 'acc, 'lp, 'l) env \<Rightarrow> 'asset \<Rightarrow> 'asset \<Rightarrow> ('asset, 'acc, 'lp, 'l) world
    \<Rightarrow> (pallet_error, amount pool_metadata) result"
where
  "get_pool_metadata env base_asset quote_asset w =
     and_then (map_err (\<lambda>_. PoolNotFound) (locate env base_asset quote_asset)) (\<lambda>pool_id.
     and_then (ok_or (pools w pool_id) PoolNotFound) (\<lambda>pool.
     Ok (to_pool_metadata pool)))"

text \<open>An assertion that fails panics.\<close>

definition integrity_test :: "('asset, 'acc, 'lp, 'l) env \<Rightarrow> ('e, unit) result" where
  "integrity_test env = (if 1 < max_swap_path_length env then Ok () else Panic)"

subsection \<open>Invariants of the storage\<close>

lemma keeps_touch_asset [keeps_intros]:
  "storage_inv I \<Longrightarrow> keeps I (touch_asset env asset pool_account who)"
  "storage_inv I \<Longrightarrow> keeps I (touch_token env token pool_account who)"
  unfolding touch_asset_def touch_token_def by (intro keeps_intros; assumption)+

lemma keeps_mint_for [keeps_intros]: "storage_inv I \<Longrightarrow> keeps I (mint_for env token acc supply b q br qr)"
  unfolding mint_for_def by (intro keeps_intros; assumption)

lemma keeps_liquidity [keeps_intros]:
  assumes "storage_inv I"
  shows "keeps I (add_liquidity ensure_signed env origin base_asset quote_asset b q b_min q_min mint_to)"
    and "keeps I (remove_liquidity ensure_signed env origin base_asset quote_asset burn b_min q_min withdraw_to)"
    and "keeps I (touch ensure_signed touch_weight env origin base_asset quote_asset)"
  unfolding add_liquidity_def remove_liquidity_def touch_def Let_def split_def
  using assms by (intro keeps_intros; assumption)+

text \<open>Calls with a postcondition \<open>Q\<close> when they succeed and \<open>E\<close> otherwise.\<close>

definition hoare :: "('s \<Rightarrow> bool) \<Rightarrow> ('s, 'e, 'a) call \<Rightarrow> ('a \<Rightarrow> 's \<Rightarrow> bool) \<Rightarrow> ('s \<Rightarrow> bool) \<Rightarrow> bool" where
  "hoare P c Q E \<longleftrightarrow> (\<forall>s. P s \<longrightarrow> (case c s of (Ok a, s') \<Rightarrow> Q a s' | (_, s') \<Rightarrow> E s'))"

lemma hoare_bind: "hoare P c Q E \<Longrightarrow> (\<And>a. hoare (Q a) (f a) R E) \<Longrightarrow> hoare P (bind c f) R E"
  unfolding hoare_def
proof (intro allI impI)
  fix s
  assume c: "\<forall>s. P s \<longrightarrow> (case c s of (Ok a, s') \<Rightarrow> Q a s' | (_, s') \<Rightarrow> E s')" and "P s"
    and f: "\<And>a. \<forall>s. Q a s \<longrightarrow> (case f a s of (Ok b, s') \<Rightarrow> R b s' | (_, s') \<Rightarrow> E s')"
  obtain r s' where s': "c s = (r, s')"
    by fastforce
  have "case (r, s') of (Ok a, s') \<Rightarrow> Q a s' | (_, s') \<Rightarrow> E s'"
    using c [rule_format, OF \<open>P s\<close>] unfolding s' .
  then show "case bind c f s of (Ok b, s') \<Rightarrow> R b s' | (_, s') \<Rightarrow> E s'"
    using f s' by (cases r) (simp_all add: bind_def)
qed

lemma hoare_quiet:
  assumes "quiet c" "storage_inv P" "\<And>s. P s \<Longrightarrow> E s"
  shows "hoare P c (\<lambda>_. P) E"
  unfolding hoare_def
proof (intro allI impI)
  fix s
  assume "P s"
  moreover have "storage (snd (c s)) = storage s"
    using assms(1) by (simp add: quiet_def)
  ultimately have "P (snd (c s))"
    using assms(2) unfolding storage_inv_def by metis
  then show "case c s of (Ok a, s') \<Rightarrow> P s' | (_, s') \<Rightarrow> E s'"
    using assms(3) by (auto split: prod.splits result.splits)
qed

lemma hoare_basic:
  "hoare P (reads g) (\<lambda>a s. P s \<and> a = g s) E"
  "(\<And>s. P s \<Longrightarrow> E s) \<Longrightarrow> hoare P (from_result r) (\<lambda>a s. P s \<and> r = Ok a) E"
  "(\<And>s. P s \<Longrightarrow> E s) \<Longrightarrow> hoare P (require b e) (\<lambda>_ s. P s \<and> b) E"
  "(\<And>s. P s \<Longrightarrow> Q () (f s)) \<Longrightarrow> hoare P (updates f) Q E"
  "(\<And>s. P s \<Longrightarrow> Q a s) \<Longrightarrow> hoare P (give a) Q E"
  by (auto simp: hoare_def basic_calls ensure_def split: result.splits)

lemma hoare_keeps: "hoare I c (\<lambda>_. I) I \<Longrightarrow> keeps I c"
  unfolding hoare_def
proof (rule keepsI)
  fix s
  assume c: "\<forall>s. I s \<longrightarrow> (case c s of (Ok a, s') \<Rightarrow> I s' | (_, s') \<Rightarrow> I s')" and "I s"
  obtain r s' where s': "c s = (r, s')"
    by fastforce
  have "case (r, s') of (Ok a, s') \<Rightarrow> I s' | (_, s') \<Rightarrow> I s'"
    using c [rule_format, OF \<open>I s\<close>] unfolding s' .
  then show "I (snd (c s))"
    unfolding s' by (cases r) simp_all
qed

lemma hoare_pre: "hoare P' c Q E \<Longrightarrow> (\<And>s. P s \<Longrightarrow> P' s) \<Longrightarrow> hoare P c Q E"
  by (simp add: hoare_def)

lemma quiet_ledger_update: "quiet (updates (\<lambda>w. w\<lparr>ledger := f w\<rparr>))"
  by (rule quiet_keeps) (rule keeps_storage)

lemma quiet_touch:
  "quiet (touch_asset env asset acc who)" "quiet (touch_token env token acc who)" "quiet (withdraw env asset who v k)"
  by (rule quiet_keeps, intro keeps_intros; assumption)+

lemma require_bind: "bind (require b e) f = (if b then f () else from_result (Err e))"
  by (rule ext) (simp add: bind_def basic_calls ensure_def)

lemma quietD: "quiet c \<Longrightarrow> c w = (r, w') \<Longrightarrow> storage w' = storage w"
  unfolding quiet_def by (metis snd_conv)

subsection \<open>Creating pools keeps the invariants\<close>

definition next_token :: "('asset, 'acc, 'lp, 'l) env \<Rightarrow> ('asset, 'acc, 'lp, 'l) world \<Rightarrow> 'lp option" where
  "next_token env w = (case next_pool_asset_id w of Some n \<Rightarrow> Some n | None \<Rightarrow> lp_initial_value env)"

locale pool_creation = pool_invariant I for I :: "('asset, 'acc, 'lp, 'l) world \<Rightarrow> bool" +
  fixes env :: "('asset, 'acc, 'lp, 'l) env"
  assumes issued_token: "I w \<Longrightarrow> next_token env w = Some n \<Longrightarrow> lp_increment env n = Some m \<Longrightarrow> I (w\<lparr>next_pool_asset_id := Some m\<rparr>)"
    and created_pool: "I w \<Longrightarrow> next_token env w = Some n \<Longrightarrow> lp_increment env n = Some m \<Longrightarrow> pools w i = None \<Longrightarrow>
      0 < tick \<Longrightarrow> 0 < lot \<Longrightarrow>
      I (w\<lparr>next_pool_asset_id := Some m, pools := (pools w)(i \<mapsto> pool_new n fee tick lot pd bd qd)\<rparr>)"
begin

text \<open>The state between the increment of the token and the insertion of the pool.\<close>

definition half_created :: "'asset \<times> 'asset \<Rightarrow> 'lp \<Rightarrow> 'lp \<Rightarrow> ('asset, 'acc, 'lp, 'l) world \<Rightarrow> bool" where
  "half_created i n m w \<longleftrightarrow>
     (\<exists>w0. I w0 \<and> next_token env w0 = Some n \<and> lp_increment env n = Some m \<and> pools w0 i = None
       \<and> storage w = storage (w0\<lparr>next_pool_asset_id := Some m\<rparr>))"

lemma half_created_I: "half_created i n m w \<Longrightarrow> I w"
  unfolding half_created_def
proof (elim exE conjE)
  fix w0
  assume "I w0" "next_token env w0 = Some n" "lp_increment env n = Some m"
    and s: "storage w = storage (w0\<lparr>next_pool_asset_id := Some m\<rparr>)"
  then have "I (w0\<lparr>next_pool_asset_id := Some m\<rparr>)"
    by (intro issued_token)
  then show "I w"
    by (rule storage_only [unfolded storage_inv_def, rule_format, OF s [symmetric]])
qed

lemma half_created_done:
  assumes "half_created i n m w" "0 < tick" "0 < lot"
  shows "I (w\<lparr>pools := (pools w)(i \<mapsto> pool_new n fee tick lot pd bd qd)\<rparr>)"
proof -
  obtain w0 where w0: "I w0" "next_token env w0 = Some n" "lp_increment env n = Some m" "pools w0 i = None"
      and s: "storage w = storage (w0\<lparr>next_pool_asset_id := Some m\<rparr>)"
    using assms(1) unfolding half_created_def by blast
  have "storage (w0\<lparr>next_pool_asset_id := Some m, pools := (pools w0)(i \<mapsto> pool_new n fee tick lot pd bd qd)\<rparr>) =
      storage (w\<lparr>pools := (pools w)(i \<mapsto> pool_new n fee tick lot pd bd qd)\<rparr>)"
    using s by (simp add: storage_def)
  then show ?thesis
    by (rule storage_only [unfolded storage_inv_def, rule_format, OF _ created_pool [OF w0 assms(2,3)]])
qed

lemma storage_half: "storage_inv (half_created i n m)"
  by (auto simp: storage_inv_def half_created_def)

lemma storage_absent: "storage_inv (\<lambda>w. I w \<and> pools w i = None)"
  using storage_only unfolding storage_inv_def storage_def by auto

text \<open>The end of \<open>create_pool\<close>, from the creation of the token on, and what comes before it, from the
  payment of the fee on.\<close>

lemma hoare_insert:
  assumes "0 < tick" "0 < lot"
  shows "hoare (half_created i n m)
    (bind (on_ledger (lp_create env n acc False 1)) (\<lambda>_.
     bind (touch_token env n acc sender) (\<lambda>_.
     bind (updates (\<lambda>w. w\<lparr>pools := (pools w)(i \<mapsto> pool_new n fee tick lot pd bd qd)\<rparr>)) (\<lambda>_.
     bind (deposit_event ev) (\<lambda>_. give ()))))) (\<lambda>_. I) I"
  by (rule hoare_bind, rule hoare_quiet [OF quiet_basic(6) storage_half half_created_I], assumption)
    (rule hoare_bind, rule hoare_quiet [OF quiet_touch(2) storage_half half_created_I], assumption,
      rule hoare_bind, rule hoare_basic(4) [where Q = "\<lambda>_. I"], rule half_created_done [OF _ assms], assumption,
      rule hoare_bind, rule hoare_quiet [OF quiet_basic(5) storage_only], assumption,
      rule hoare_basic(5), assumption)

lemma hoare_token:
  assumes "\<And>n m. hoare (half_created i n m) (rest n) (\<lambda>_. I) I"
  shows "hoare (\<lambda>w. I w \<and> pools w i = None)
    (bind (reads (\<lambda>w. case next_pool_asset_id w of Some n \<Rightarrow> Some n | None \<Rightarrow> lp_initial_value env)) (\<lambda>maybe_token.
     bind (pallet (ok_or maybe_token IncorrectPoolAssetId)) (\<lambda>token.
     bind (pallet (ok_or (lp_increment env token) IncorrectPoolAssetId)) (\<lambda>m.
     bind (updates (\<lambda>w. w\<lparr>next_pool_asset_id := Some m\<rparr>)) (\<lambda>_. rest token))))) (\<lambda>_. I) I"
  by (rule hoare_bind, rule hoare_basic(1), rule hoare_bind, rule hoare_basic(2), simp,
      rule hoare_bind, rule hoare_basic(2), simp, rule hoare_bind [OF hoare_basic(4) assms])
    (auto simp: half_created_def next_token_def result_iffs)

lemma hoare_setup:
  assumes "hoare (\<lambda>w. I w \<and> pools w i = None) rest (\<lambda>_. I) I"
  shows "hoare (\<lambda>w. I w \<and> pools w i = None)
    (bind (withdraw env a sender v True) (\<lambda>fee.
     bind (updates (\<lambda>w. w\<lparr>ledger := on_unbalanced env fee (ledger w)\<rparr>)) (\<lambda>_.
     bind (touch_asset env b acc sender) (\<lambda>_.
     bind (touch_asset env q acc sender) (\<lambda>_. rest))))) (\<lambda>_. I) I"
  by (rule hoare_bind, rule hoare_quiet [OF quiet_touch(3) storage_absent], simp,
      rule hoare_bind, rule hoare_quiet [OF quiet_ledger_update storage_absent], simp,
      rule hoare_bind, rule hoare_quiet [OF quiet_touch(1) storage_absent], simp,
      rule hoare_bind, rule hoare_quiet [OF quiet_touch(1) storage_absent], simp, rule assms)

lemma hoare_create:
  assumes "0 < tick" "0 < lot"
  shows "hoare I
    (bind (reads (\<lambda>w. pools w i)) (\<lambda>existing.
     if existing = None then
       bind (from_result located) (\<lambda>acc.
       bind (withdraw env a sender v True) (\<lambda>paid.
       bind (updates (\<lambda>w. w\<lparr>ledger := on_unbalanced env paid (ledger w)\<rparr>)) (\<lambda>_.
       bind (touch_asset env b acc sender) (\<lambda>_.
       bind (touch_asset env q acc sender) (\<lambda>_.
       bind (reads (\<lambda>w. case next_pool_asset_id w of Some n \<Rightarrow> Some n | None \<Rightarrow> lp_initial_value env)) (\<lambda>maybe_token.
       bind (pallet (ok_or maybe_token IncorrectPoolAssetId)) (\<lambda>token.
       bind (pallet (ok_or (lp_increment env token) IncorrectPoolAssetId)) (\<lambda>m.
       bind (updates (\<lambda>w. w\<lparr>next_pool_asset_id := Some m\<rparr>)) (\<lambda>_.
       bind (on_ledger (lp_create env token acc False 1)) (\<lambda>_.
       bind (touch_token env token acc sender) (\<lambda>_.
       bind (updates (\<lambda>w. w\<lparr>pools := (pools w)(i \<mapsto> pool_new token fee tick lot pd bd qd)\<rparr>)) (\<lambda>_.
       bind (deposit_event (PoolCreated sender i acc token fee tick lot)) (\<lambda>_. give ())))))))))))))
     else from_result (Err (Module PoolExists)))) (\<lambda>_. I) I"
proof (rule hoare_bind, rule hoare_basic(1), goal_cases)
  case (1 existing)
  show ?case
  proof (cases "existing = None")
    case True
    show ?thesis
      unfolding True if_P [OF refl]
      by (rule hoare_pre [where P' = "\<lambda>w. I w \<and> pools w i = None"],
          rule hoare_bind, rule hoare_quiet [OF quiet_basic(2) storage_absent], simp,
          rule hoare_setup, rule hoare_token, rule hoare_insert [OF assms]) simp
  qed (auto simp: hoare_def basic_calls)
qed

lemma keeps_create_pool:
  "keeps I (create_pool ensure_signed env origin base_asset bd quote_asset qd fee tick lot pd)"
proof (cases "base_asset \<noteq> quote_asset \<and> 0 < tick \<and> 0 < lot")
  case False
  then consider "base_asset = quote_asset" | "base_asset \<noteq> quote_asset" "\<not> 0 < tick" | "base_asset \<noteq> quote_asset" "0 < tick" "\<not> 0 < lot"
    by blast
  then show ?thesis
    by cases (simp_all only: create_pool_def require_bind if_True if_False not_True_eq_False simp_thms, (intro keeps_bind keeps_basic)+)
next
  case True
  show ?thesis
    unfolding create_pool_def require_bind locate_pool_def
    using True
    by (simp only: if_True simp_thms)
      (rule hoare_keeps, rule hoare_bind, rule hoare_quiet [OF quiet_basic(2) storage_only], assumption,
        rule hoare_bind, rule hoare_quiet [OF quiet_basic(2) storage_only], assumption, rule hoare_create; simp)
qed

end

interpretation pools_good_created: pool_creation world_ok env
  for env :: "('asset, 'acc, 'lp, 'l) env"
proof
  fix w :: "('asset, 'acc, 'lp, 'l) world" and n m :: 'lp and i
  assume w: "world_ok w"
  then show "world_ok (w\<lparr>next_pool_asset_id := Some m\<rparr>)"
    by (simp add: world_ok_def)
  fix tick lot :: amount and fee pd bd qd
  assume "0 < tick" "0 < lot"
  then show "world_ok (w\<lparr>next_pool_asset_id := Some m, pools := (pools w)(i \<mapsto> pool_new n fee tick lot pd bd qd)\<rparr>)"
    using w unfolding world_ok_def by (simp add: pool_good_new)
qed

lemma tokens_distinct_issue:
  assumes "tokens_distinct rank w" "next_token env w = Some n" "rank n < rank m"
  shows "tokens_distinct rank (w\<lparr>next_pool_asset_id := Some m\<rparr>)"
    and "pools w i = Some p \<Longrightarrow> rank (lp_token p) < rank n"
proof -
  show less: "rank (lp_token p) < rank n" if "pools w i = Some p" for i p
  proof -
    obtain k where "next_pool_asset_id w = Some k" "rank (lp_token p) < rank k"
      using assms(1) \<open>pools w i = Some p\<close> unfolding tokens_distinct_def by blast
    then show ?thesis
      using assms(2) by (simp add: next_token_def)
  qed
  have "rank (lp_token p) < rank m" if "pools w i = Some p" for i p
    using less [OF that] assms(3) by simp
  then show "tokens_distinct rank (w\<lparr>next_pool_asset_id := Some m\<rparr>)"
    using assms(1) unfolding tokens_distinct_def by simp
qed

lemma tokens_distinct_create:
  assumes "tokens_distinct rank w" "next_token env w = Some n" "rank n < rank m" "lp_token p = n"
  shows "tokens_distinct rank (w\<lparr>next_pool_asset_id := Some m, pools := (pools w)(i \<mapsto> p)\<rparr>)"
proof -
  note less = tokens_distinct_issue(2) [OF assms(1-3)]
  have sel: "pools (w\<lparr>next_pool_asset_id := Some m, pools := (pools w)(i \<mapsto> p)\<rparr>) = (pools w)(i \<mapsto> p)"
      "next_pool_asset_id (w\<lparr>next_pool_asset_id := Some m, pools := (pools w)(i \<mapsto> p)\<rparr>) = Some m"
    by simp_all
  have new: "q = p \<and> j = i \<or> j \<noteq> i \<and> pools w j = Some q \<and> rank (lp_token q) < rank n"
    if "((pools w)(i \<mapsto> p)) j = Some q" for j q
    using that less [of j q] by (cases "j = i") simp_all
  show ?thesis
    unfolding tokens_distinct_def sel
  proof (intro conjI allI impI)
    fix j q
    assume "((pools w)(i \<mapsto> p)) j = Some q"
    from new [OF this] show "\<exists>n. Some m = Some n \<and> rank (lp_token q) < rank n"
      using assms(3,4) by auto
  next
    fix j k q r
    assume "((pools w)(i \<mapsto> p)) j = Some q" "((pools w)(i \<mapsto> p)) k = Some r" and t: "lp_token q = lp_token r"
    from new [OF this(1)] new [OF this(2)] t assms(1,4) show "j = k"
      unfolding tokens_distinct_def by (metis less_irrefl)
  qed
qed

interpretation pools_tokens_created: pool_creation "tokens_ok env rank" env
  for env :: "('asset, 'acc, 'lp, 'l) env" and rank :: "'lp \<Rightarrow> nat"
proof
  fix w :: "('asset, 'acc, 'lp, 'l) world" and n m i
  assume w: "tokens_ok env rank w" and n: "next_token env w = Some n" "lp_increment env n = Some m"
  have fresh: "rank n < rank m" if "lp_fresh env rank"
    using that n(2) by (simp add: lp_fresh_def)
  show "tokens_ok env rank (w\<lparr>next_pool_asset_id := Some m\<rparr>)"
    using w fresh tokens_distinct_issue(1) [OF _ n(1)] pools_good_created.issued_token [OF _ n]
    unfolding tokens_ok_def by blast
  fix tick lot :: amount and fee pd bd qd
  assume i: "pools w i = None" and "0 < tick" "0 < lot"
  then show "tokens_ok env rank (w\<lparr>next_pool_asset_id := Some m, pools := (pools w)(i \<mapsto> pool_new n fee tick lot pd bd qd)\<rparr>)"
    using w fresh tokens_distinct_create [OF _ n(1)] pools_good_created.created_pool [OF _ n i]
    unfolding tokens_ok_def by (auto simp: pool_new_def)
qed

subsection \<open>What liquidity moves\<close>

lemma add_liquidity_Ok:
  assumes "add_liquidity ensure_signed env origin b q b_des q_des b_min q_min mint_to w = (Ok u, w')"
  obtains sender i p acc ba qa n1 l1 n2 l2 lp w3 r4 l4 where
    "ensure_signed origin = Ok sender" "locate env b q = Ok i" "pools w i = Some p" "locator_account env i = Ok acc"
    "deposit_amounts b_des q_des b_min q_min (get_balance env acc b w) (get_balance env acc q w) = Ok (ba, qa)"
    "assets_transfer env b sender acc ba Preserve (ledger w) = (Ok n1, l1)"
    "assets_transfer env q sender acc qa Preserve l1 = (Ok n2, l2)"
    "mint_for env (lp_token p) acc (lp_total_issuance env (lp_token p) l2) ba qa (get_balance env acc b w) (get_balance env acc q w)
       (w\<lparr>ledger := l2\<rparr>) = (Ok lp, w3)"
    "lp_mint_into env (lp_token p) mint_to lp (ledger w3) = (Ok r4, l4)" "ledger w' = l4"
  using assms unfolding add_liquidity_def locate_pool_def
  by (clarsimp simp: bind_eq_Ok basic_calls(1,2,4,5) require_Ok result_iffs on_ledger_Ok deposit_event_def)

lemma create_pool_Ok:
  assumes "create_pool ensure_signed env origin b bd q qd fee tick lot pd w = (Ok u, w')"
  obtains i n m where "locate env b q = Ok i" "b \<noteq> q" "0 < tick" "0 < lot" "pools w i = None" "next_token env w = Some n"
    "lp_increment env n = Some m" "pools w' = (pools w)(i \<mapsto> pool_new n fee tick lot pd bd qd)" "next_pool_asset_id w' = Some m"
proof -
  obtain sender i acc paid w1 w2 n1 w3 n2 w4 n m r1 w5 n3 w6 where c: "ensure_signed origin = Ok sender" "b \<noteq> q" "0 < tick" "0 < lot"
    "locate env b q = Ok i" "pools w i = None" "locator_account env i = Ok acc"
    and f: "withdraw env (pool_setup_fee_asset env) sender (pool_setup_fee env) True w = (Ok paid, w1)"
      "w2 = w1\<lparr>ledger := on_unbalanced env paid (ledger w1)\<rparr>"
      "touch_asset env b acc sender w2 = (Ok n1, w3)" "touch_asset env q acc sender w3 = (Ok n2, w4)"
    and t: "next_token env w4 = Some n" "lp_increment env n = Some m"
    and g: "on_ledger (lp_create env n acc False 1) (w4\<lparr>next_pool_asset_id := Some m\<rparr>) = (Ok r1, w5)"
      "touch_token env n acc sender w5 = (Ok n3, w6)"
    and w': "pools w' = (pools w6)(i \<mapsto> pool_new n fee tick lot pd bd qd)" "next_pool_asset_id w' = next_pool_asset_id w6"
    using assms unfolding create_pool_def locate_pool_def next_token_def
    by (clarsimp simp: bind_eq_Ok basic_calls(1,2,4,5) require_Ok result_iffs deposit_event_def)
  have "storage w1 = storage w" "storage w3 = storage w2" "storage w4 = storage w3"
      "storage w5 = storage (w4\<lparr>next_pool_asset_id := Some m\<rparr>)" "storage w6 = storage w5"
    by (rule quietD [OF quiet_touch(3) f(1)] quietD [OF quiet_touch(1) f(3)] quietD [OF quiet_touch(1) f(4)]
        quietD [OF quiet_basic(6) g(1)] quietD [OF quiet_touch(2) g(2)])+
  then have "pools w6 = pools w" "next_pool_asset_id w6 = Some m" "next_pool_asset_id w4 = next_pool_asset_id w"
    using f(2) by (simp_all add: storage_def)
  then show thesis
    using c t w' by (intro that [of i n m]) (simp_all add: next_token_def)
qed

lemma saturating_sub_le: "saturating_sub a b \<le> (a :: 'a::len word)"
  by (simp add: word_le_nat_alt unat_saturating_sub)

lemma remove_liquidity_Ok:
  assumes "remove_liquidity ensure_signed env origin b q burn b_min q_min withdraw_to w = (Ok u, w')"
  obtains sender i p acc redeem ba qa r1 l1 n2 l2 n3 l3 where
    "ensure_signed origin = Ok sender" "locate env b q = Ok i" "pools w i = Some p" "locator_account env i = Ok acc"
    "redeem \<le> burn"
    "mul_div redeem (get_balance env acc b w) (lp_total_issuance env (lp_token p) (ledger w)) = Ok ba"
    "mul_div redeem (get_balance env acc q w) (lp_total_issuance env (lp_token p) (ledger w)) = Ok qa"
    "lp_burn_from env (lp_token p) sender burn Expendable (ledger w) = (Ok r1, l1)"
    "assets_transfer env b acc withdraw_to ba Expendable l1 = (Ok n2, l2)"
    "assets_transfer env q acc withdraw_to qa Expendable l2 = (Ok n3, l3)" "ledger w' = l3"
  using assms unfolding remove_liquidity_def locate_pool_def Let_def
  by (clarsimp simp: bind_eq_Ok basic_calls(1,2,4,5) require_Ok result_iffs on_ledger_Ok deposit_event_def)
    (rule that; (assumption | simp add: saturating_sub_le))

text \<open>The law of quotients of \<open>mul_div\<close>.\<close>

lemma mul_div_le: "mul_div a b c = Ok r \<Longrightarrow> 0 < unat c \<and> unat r * unat c \<le> unat a * unat b"
proof -
  assume "mul_div a b c = Ok r"
  then have "c \<noteq> 0" "unat a * unat b div unat c < 2 ^ 128" "r = to_unit (unat a * unat b div unat c)"
    by (auto simp: mul_div_nat split: if_splits)
  then show ?thesis
    using div_times_less_eq_dividend [of "unat a * unat b" "unat c"] by (simp add: unat_to_unit unat_gt_0)
qed

text \<open>The pool's account, apart from everybody who acts on it, with nothing of it frozen.\<close>

definition pool_apart ::
  "('asset, 'acc, 'lp, 'l) env \<Rightarrow> ('l \<Rightarrow> 'asset \<Rightarrow> 'acc \<Rightarrow> nat) \<Rightarrow> ('asset, 'acc, 'lp, 'l) world \<Rightarrow> 'asset \<Rightarrow> 'asset
    \<Rightarrow> ('lp, 'acc) pallet_pool \<Rightarrow> 'acc \<Rightarrow> 'acc \<Rightarrow> bool"
where
  "pool_apart env frz w b q p acc who \<longleftrightarrow>
     (\<exists>i. locate env b q = Ok i \<and> pools w i = Some p \<and> locator_account env i = Ok acc)
     \<and> b \<noteq> q \<and> who \<noteq> acc \<and> frz (ledger w) b acc = 0 \<and> frz (ledger w) q acc = 0"

lemma pool_reserves:
  assumes "fungibles_spec env bal frz" "pool_apart env frz w b q p acc who"
  shows "unat (get_balance env acc b w) = bal (ledger w) b acc" "unat (get_balance env acc q w) = bal (ledger w) q acc"
  using assms(2) fungibles_specD(1) [OF assms(1)] by (simp_all add: get_balance_def pool_apart_def)

lemma add_liquidity_effect:
  assumes specs: "fungibles_spec env bal frz" "tokens_spec env bal frz issued hold"
    and apart: "pool_apart env frz w b q p acc sender" and signed: "ensure_signed origin = Ok sender"
    and add: "add_liquidity ensure_signed env origin b q b_des q_des b_min q_min mint_to w = (Ok u, w')"
    and old: "0 < issued (ledger w) (lp_token p)"
  obtains ba qa m where
    "bal (ledger w') b acc = bal (ledger w) b acc + ba" "bal (ledger w') q acc = bal (ledger w) q acc + qa"
    "bal (ledger w) b sender = bal (ledger w') b sender + ba" "bal (ledger w) q sender = bal (ledger w') q sender + qa"
    "issued (ledger w') (lp_token p) = issued (ledger w) (lp_token p) + m"
    "hold (ledger w') (lp_token p) mint_to = hold (ledger w) (lp_token p) mint_to + m"
    "m * bal (ledger w) b acc \<le> ba * issued (ledger w) (lp_token p)"
    "m * bal (ledger w) q acc \<le> qa * issued (ledger w) (lp_token p)"
    "frz (ledger w') = frz (ledger w)" "0 < bal (ledger w) b acc" "0 < bal (ledger w) q acc"
  using add
proof (rule add_liquidity_Ok)
  fix sender' i p' acc' ba qa n1 l1 n2 l2 lp w3 r4 l4
  assume a: "ensure_signed origin = Ok sender'" "locate env b q = Ok i" "pools w i = Some p'" "locator_account env i = Ok acc'"
    and t1: "assets_transfer env b sender' acc' ba Preserve (ledger w) = (Ok n1, l1)"
    and t2: "assets_transfer env q sender' acc' qa Preserve l1 = (Ok n2, l2)"
    and mint: "mint_for env (lp_token p') acc' (lp_total_issuance env (lp_token p') l2) ba qa (get_balance env acc' b w) (get_balance env acc' q w)
       (w\<lparr>ledger := l2\<rparr>) = (Ok lp, w3)"
    and m: "lp_mint_into env (lp_token p') mint_to lp (ledger w3) = (Ok r4, l4)" and w': "ledger w' = l4"
  have same: "sender' = sender" "p' = p" "acc' = acc"
    using a signed apart by (auto simp: pool_apart_def)
  note t = t1 [unfolded same] t2 [unfolded same] mint [unfolded same] m [unfolded same]
  note d1 = fungibles_specD(4) [OF specs(1) t(1)] and d2 = fungibles_specD(4) [OF specs(1) t(2)]
  note e1 = tokens_specD(4) [OF specs(2) t(1)] and e2 = tokens_specD(4) [OF specs(2) t(2)]
  have S: "unat (lp_total_issuance env (lp_token p) l2) = issued (ledger w) (lp_token p)"
    using tokens_specD(1) [OF specs(2), of "lp_token p" l2] e1 e2 by simp
  then have "lp_total_issuance env (lp_token p) l2 \<noteq> 0"
    using old by (metis unat_0 less_irrefl)
  then obtain s1 s2 where sides: "mul_div ba (lp_total_issuance env (lp_token p) l2) (get_balance env acc b w) = Ok s1"
      "mul_div qa (lp_total_issuance env (lp_token p) l2) (get_balance env acc q w) = Ok s2"
      and lp: "lp = min s1 s2" "w3 = w\<lparr>ledger := l2\<rparr>"
    using t(3) by (auto simp: mint_for_def bind_eq_Ok basic_calls result_iffs)
  note r = pool_reserves [OF specs(1) apart]
  have lp_le: "unat lp \<le> unat s1" "unat lp \<le> unat s2"
    using lp(1) by (simp_all add: min_def word_le_nat_alt)
  note le1 = mul_div_le [OF sides(1), unfolded S r] and le2 = mul_div_le [OF sides(2), unfolded S r]
  have share: "unat lp * bal (ledger w) b acc \<le> unat ba * issued (ledger w) (lp_token p)"
    "unat lp * bal (ledger w) q acc \<le> unat qa * issued (ledger w) (lp_token p)"
    using lp_le le1 le2 by (meson mult_le_mono1 le_trans)+
  have ap: "b \<noteq> q" "sender \<noteq> acc"
    using apart by (simp_all add: pool_apart_def)
  note mm = tokens_specD(2) [OF specs(2) t(4)]
  show thesis
    by (rule that [of "unat ba" "unat qa" "unat lp"])
      (use share le1 le2 d1 d2 e1 e2 mm w' lp(2) ap in simp_all)
qed

lemma remove_liquidity_effect:
  assumes specs: "fungibles_spec env bal frz" "tokens_spec env bal frz issued hold"
    and apart: "pool_apart env frz w b q p acc withdraw_to"
    and rem: "remove_liquidity ensure_signed env origin b q burn b_min q_min withdraw_to w = (Ok u, w')"
  obtains ba qa where
    "bal (ledger w) b acc = bal (ledger w') b acc + ba" "bal (ledger w) q acc = bal (ledger w') q acc + qa"
    "bal (ledger w') b withdraw_to = bal (ledger w) b withdraw_to + ba"
    "bal (ledger w') q withdraw_to = bal (ledger w) q withdraw_to + qa"
    "issued (ledger w) (lp_token p) = issued (ledger w') (lp_token p) + unat burn"
    "ba * issued (ledger w) (lp_token p) \<le> unat burn * bal (ledger w) b acc"
    "qa * issued (ledger w) (lp_token p) \<le> unat burn * bal (ledger w) q acc"
  using rem
proof (rule remove_liquidity_Ok)
  fix sender i p' acc' redeem ba qa r1 l1 n2 l2 n3 l3
  assume a: "locate env b q = Ok i" "pools w i = Some p'" "locator_account env i = Ok acc'" and redeem: "redeem \<le> burn"
    and s1: "mul_div redeem (get_balance env acc' b w) (lp_total_issuance env (lp_token p') (ledger w)) = Ok ba"
    and s2: "mul_div redeem (get_balance env acc' q w) (lp_total_issuance env (lp_token p') (ledger w)) = Ok qa"
    and b: "lp_burn_from env (lp_token p') sender burn Expendable (ledger w) = (Ok r1, l1)"
    and t1: "assets_transfer env b acc' withdraw_to ba Expendable l1 = (Ok n2, l2)"
    and t2: "assets_transfer env q acc' withdraw_to qa Expendable l2 = (Ok n3, l3)" and w': "ledger w' = l3"
  have same: "p' = p" "acc' = acc"
    using a apart by (auto simp: pool_apart_def)
  note t = t1 [unfolded same] t2 [unfolded same] b [unfolded same]
  note d1 = fungibles_specD(4) [OF specs(1) t(1)] and d2 = fungibles_specD(4) [OF specs(1) t(2)]
  note e1 = tokens_specD(4) [OF specs(2) t(1)] and e2 = tokens_specD(4) [OF specs(2) t(2)] and f = tokens_specD(3) [OF specs(2) t(3)]
  note S = tokens_specD(1) [OF specs(2), of "lp_token p" "ledger w"] and r = pool_reserves [OF specs(1) apart]
  note le = mul_div_le [OF s1 [unfolded same], unfolded S r] mul_div_le [OF s2 [unfolded same], unfolded S r]
  have red: "unat redeem \<le> unat burn"
    using redeem by (simp add: word_le_nat_alt)
  have share: "unat ba * issued (ledger w) (lp_token p) \<le> unat burn * bal (ledger w) b acc"
    "unat qa * issued (ledger w) (lp_token p) \<le> unat burn * bal (ledger w) q acc"
    using le red by (meson mult_le_mono1 le_trans)+
  have ap: "b \<noteq> q" "withdraw_to \<noteq> acc"
    using apart by (simp_all add: pool_apart_def)
  show thesis
    by (rule that [of "unat ba" "unat qa"]) (use share d1 d2 e1 e2 f w' ap in simp_all)
qed

text \<open>No share of a pool is worth less after a deposit of \<open>a\<close> for \<open>m\<close> tokens, nor after a withdrawal.\<close>

lemma share_law:
  fixes R S a m :: nat
  shows "m * R \<le> a * S \<Longrightarrow> R * (S + m) \<le> (R + a) * S"
    and "a \<le> R \<Longrightarrow> m \<le> S \<Longrightarrow> a * S \<le> m * R \<Longrightarrow> R * (S - m) \<le> (R - a) * S"
  by (simp_all add: algebra_simps diff_mult_distrib diff_mult_distrib2 diff_le_mono2)

text \<open>Withdrawing what a deposit of \<open>a\<close> minted, \<open>m\<close> tokens, returns at most the deposit.\<close>

lemma round_trip_law:
  fixes R S a m x :: nat
  assumes "m * R \<le> a * S" "x * (S + m) \<le> m * (R + a)" "0 < S"
  shows "x \<le> a"
proof -
  have "x * (S + m) \<le> a * (S + m)"
    using assms(1,2) by (simp add: algebra_simps)
  then show ?thesis
    using assms(3) by simp
qed

end
