(* ===== verification/Dispatch.thy ===== *)
theory Dispatch
  imports OrderFlow Liquidity
begin

text \<open>
  The calls of the pallet as one interface (\<open>pallets/hybrid-orderbook/src/lib.rs\<close>, \<open>pallet::call\<close>) and
  the worlds that they reach. Between calls the block number, the ledger and the events may change
  in any way: other pallets do that. A call that fails leaves the world as it was: the storage layer
  of \<open>frame_support\<close> around a dispatch rolls it back.
\<close>

datatype ('asset, 'acc) pallet_call =
  Create_pool 'asset "8 word" 'asset "8 word" "32 word" amount amount "8 word"
| Add_liquidity 'asset 'asset amount amount amount amount 'acc
| Remove_liquidity 'asset 'asset amount amount amount 'acc
| Touch 'asset 'asset
| Market_order 'asset 'asset amount bool
| Limit_order 'asset 'asset bool amount amount
| Cancel_order 'asset 'asset amount OrderId amount

text \<open>The weight that a call reports after it ran is left out of its outcome here.\<close>

definition dispatch ::
  "('origin \<Rightarrow> (dispatch_error, 'acc) result) \<Rightarrow> ('asset, 'acc, 'lp, 'l) env \<Rightarrow> 'origin \<Rightarrow> ('asset, 'acc) pallet_call
    \<Rightarrow> (('asset, 'acc, 'lp, 'l) world, dispatch_error, unit) call"
where
  "dispatch ensure_signed env origin c =
     (case c of
        Create_pool b bd q qd fee tick lot pd \<Rightarrow> create_pool ensure_signed env origin b bd q qd fee tick lot pd
      | Add_liquidity b q b_des q_des b_min q_min mint_to \<Rightarrow> add_liquidity ensure_signed env origin b q b_des q_des b_min q_min mint_to
      | Remove_liquidity b q burn b_min q_min withdraw_to \<Rightarrow> remove_liquidity ensure_signed env origin b q burn b_min q_min withdraw_to
      | Touch b q \<Rightarrow> bind (touch ensure_signed id env origin b q) (\<lambda>_. give ())
      | Market_order b q quantity is_bid \<Rightarrow> market_order ensure_signed env origin b q quantity is_bid
      | Limit_order b q is_bid price quantity \<Rightarrow> limit_order ensure_signed env origin b q is_bid price quantity
      | Cancel_order b q price order_id quantity \<Rightarrow> cancel_order ensure_signed env origin b q price order_id quantity)"

inductive reachable ::
  "('origin \<Rightarrow> (dispatch_error, 'acc) result) \<Rightarrow> ('asset, 'acc, 'lp, 'l) env \<Rightarrow> ('asset, 'acc, 'lp, 'l) world \<Rightarrow> bool"
  for ensure_signed env
where
  genesis: "pools w = Map.empty \<Longrightarrow> next_pool_asset_id w = None \<Longrightarrow> reachable ensure_signed env w"
| called: "reachable ensure_signed env w \<Longrightarrow> dispatch ensure_signed env origin c w = (Ok u, w') \<Longrightarrow> reachable ensure_signed env w'"
| outside: "reachable ensure_signed env w \<Longrightarrow>
    reachable ensure_signed env (w\<lparr>ledger := l, events := es, block_number := n\<rparr>)"

subsection \<open>Invariants\<close>

lemma keeps_dispatch:
  "keeps (tokens_ok env rank) (dispatch ensure_signed env origin c)"
  by (cases c) (auto simp: dispatch_def intro!: keeps_bind keeps_basic keeps_liquidity pools_tokens.storage_only
      pools_tokens.keeps_order_calls pools_tokens_created.keeps_create_pool)

lemma reachable_tokens_ok: "reachable ensure_signed env w \<Longrightarrow> tokens_ok env rank w"
proof (induction rule: reachable.induct)
  case (genesis w)
  then show ?case
    by (simp add: tokens_ok_def world_ok_def tokens_distinct_def)
next
  case (called w origin c u w')
  show ?case
    by (rule keepsD [OF keeps_dispatch called.IH called.hyps(2)])
next
  case (outside w l es n)
  then show ?case
    by (simp add: tokens_ok_def world_ok_def tokens_distinct_def)
qed

lemma add_liquidity_pools:
  assumes "add_liquidity ensure_signed env origin b q b_des q_des b_min q_min mint_to w = (r, w')"
  shows "pools w' = pools w"
proof -
  have "keeps (\<lambda>x. pools x = pools w) (add_liquidity ensure_signed env origin b q b_des q_des b_min q_min mint_to)"
    by (rule keeps_liquidity(1)) (rule storage_invI)
  from keepsD [OF this _ assms] show ?thesis
    by simp
qed

subsection \<open>A world with a pool\<close>

definition empty_world :: "(nat, nat, nat, table) world" where
  "empty_world = \<lparr>pools = Map.empty, next_pool_asset_id = None, ledger = market_table, events = [], block_number = 1\<rparr>"

abbreviation signed_by :: "nat \<Rightarrow> (dispatch_error, nat) result" where
  "signed_by \<equiv> Ok"

lemma create_in_empty:
  "\<exists>w. dispatch signed_by table_env 7 (Create_pool 0 0 1 0 0 1 1 0) empty_world = (Ok (), w)
    \<and> pools w (0, 1) = Some market_pool"
  by (simp add: dispatch_def create_pool_def bind_def basic_calls ensure_def locate_pool_def table_env_def
      base_quote_pool_id_def empty_world_def withdraw_def on_ledger_def table_call_def table_take_def
      market_table_def touch_asset_def touch_token_def deposit_event_def market_pool_def saturating_sub_def Let_def)

lemma market_apart:
  "pool_apart table_env table_frz market_world 0 1 market_pool 1001 7"
  by (simp add: pool_apart_def table_env_def base_quote_pool_id_def market_world_def market_table_def)

lemma market_liquidity:
  obtains w1 w2 where "add_liquidity signed_by table_env 7 0 1 200 500 0 0 7 market_world = (Ok (), w1)"
    "remove_liquidity signed_by table_env 7 0 1 200 0 0 7 w1 = (Ok (), w2)" "table_lp (ledger w1) 0 0 = 1200"
proof -
  have "case add_liquidity signed_by table_env 7 0 1 200 500 0 0 7 market_world of (Ok _, w1) \<Rightarrow>
      table_lp (ledger w1) 0 0 = 1200 \<and> fst (remove_liquidity signed_by table_env 7 0 1 200 0 0 7 w1) = Ok () | _ \<Rightarrow> False"
    by code_simp
  then obtain w1 where w1: "add_liquidity signed_by table_env 7 0 1 200 500 0 0 7 market_world = (Ok (), w1)"
      "table_lp (ledger w1) 0 0 = 1200" "fst (remove_liquidity signed_by table_env 7 0 1 200 0 0 7 w1) = Ok ()"
    by (auto split: prod.splits result.splits)
  then show thesis
    by (metis prod.collapse that)
qed

subsection \<open>Properties\<close>

text \<open>
  C1. In every world that the calls of the pallet reach from an empty one, whatever other pallets do to
  balances, events and blocks in between: both books of every pool are well-formed (ids of the right
  side, unique and older than the next id; trees and ticks well-formed), every price level is a positive
  multiple of the pool's tick size, tick and lot sizes are positive, and, provided that incrementing a token id
  gives a higher one, no two pools share a liquidity token and every token is below the next id.
\<close>

theorem reachable_worlds_ok:
  assumes "reachable ensure_signed env w"
  shows "(pools w i = Some p \<longrightarrow> pool_ok p \<and> levels_ok p \<and> 0 < tick_size p \<and> 0 < lot_size p)
    \<and> (lp_fresh env rank \<longrightarrow> tokens_distinct rank w)"
proof -
  have "world_ok w" "lp_fresh env rank \<longrightarrow> tokens_distinct rank w"
    using reachable_tokens_ok [OF assms] by (simp_all add: tokens_ok_def)
  moreover have "pool_ok p \<and> levels_ok p" if "pools w i = Some p"
    using \<open>world_ok w\<close> that unfolding world_ok_def pool_good_def by blast
  ultimately show ?thesis
    by (auto simp: pool_ok_def)
qed

theorem reachable_worlds_ok_witness:
  "\<exists>w. reachable signed_by table_env w \<and> pools w (0, 1) = Some market_pool \<and> levels_ok market_pool
    \<and> tokens_distinct id w"
proof -
  obtain w where w: "dispatch signed_by table_env 7 (Create_pool 0 0 1 0 0 1 1 0) empty_world = (Ok (), w)"
      "pools w (0, 1) = Some market_pool"
    using create_in_empty by blast
  have "reachable signed_by table_env w"
    by (rule reachable.called [OF reachable.genesis w(1)]) (simp_all add: empty_world_def)
  moreover have "lp_fresh table_env id"
    by (simp add: lp_fresh_def table_env_def)
  ultimately show ?thesis
    using reachable_worlds_ok [of signed_by table_env w "(0, 1)" market_pool id] w(2) by blast
qed

text \<open>
  C9. Depositing into a pool that has tokens never dilutes its holders: the deposit goes from the signer
  to the pool's account, what the deposit issues is minted to the account that was named, and for both assets the
  reserve per token is no lower than before. Nothing is frozen or released. The registries move what they are
  asked to move and the pool's account is not the signer's.
\<close>

theorem add_liquidity_never_dilutes:
  assumes "fungibles_spec env bal frz" "tokens_spec env bal frz issued hold"
    and "pool_apart env frz w b q p acc sender" "ensure_signed origin = Ok sender"
    and "add_liquidity ensure_signed env origin b q b_des q_des b_min q_min mint_to w = (Ok u, w')"
    and "0 < issued (ledger w) (lp_token p)"
  shows "(\<forall>a. a = b \<or> a = q \<longrightarrow>
        bal (ledger w') a acc + bal (ledger w') a sender = bal (ledger w) a acc + bal (ledger w) a sender
        \<and> bal (ledger w) a acc * issued (ledger w') (lp_token p) \<le> bal (ledger w') a acc * issued (ledger w) (lp_token p))
    \<and> hold (ledger w') (lp_token p) mint_to + issued (ledger w) (lp_token p) =
        hold (ledger w) (lp_token p) mint_to + issued (ledger w') (lp_token p)
    \<and> frz (ledger w') = frz (ledger w)"
proof (rule add_liquidity_effect [OF assms])
  fix ba qa m
  assume e: "bal (ledger w') b acc = bal (ledger w) b acc + ba" "bal (ledger w') q acc = bal (ledger w) q acc + qa"
    "bal (ledger w) b sender = bal (ledger w') b sender + ba" "bal (ledger w) q sender = bal (ledger w') q sender + qa"
    "issued (ledger w') (lp_token p) = issued (ledger w) (lp_token p) + m"
    "hold (ledger w') (lp_token p) mint_to = hold (ledger w) (lp_token p) mint_to + m"
    "m * bal (ledger w) b acc \<le> ba * issued (ledger w) (lp_token p)"
    "m * bal (ledger w) q acc \<le> qa * issued (ledger w) (lp_token p)"
    "frz (ledger w') = frz (ledger w)"
  show ?thesis
    using share_law(1) [OF e(7)] share_law(1) [OF e(8)] e by auto
qed

theorem add_liquidity_never_dilutes_witness:
  "\<exists>w1. add_liquidity signed_by table_env 7 0 1 200 500 0 0 7 market_world = (Ok (), w1)
    \<and> 1000 * 1200 \<le> table_bal (ledger w1) 0 1001 * 1000"
proof (rule market_liquidity)
  fix w1
  assume w1: "add_liquidity signed_by table_env 7 0 1 200 500 0 0 7 market_world = (Ok (), w1)" "table_lp (ledger w1) 0 0 = 1200"
  have "0 < unat (table_lp (ledger market_world) (lp_token market_pool) 0)"
    by (simp add: market_world_def market_table_def market_pool_def pool_new_def)
  from add_liquidity_never_dilutes [OF table_fungibles table_tokens_spec market_apart refl w1(1) this] w1
  show ?thesis
    by (simp add: market_world_def market_table_def market_pool_def pool_new_def)
qed

text \<open>
  C10. Withdrawing from a pool never dilutes the holders that stay: exactly the burned tokens disappear,
  what leaves the pool's account reaches the account that was named, and for both assets the reserve per token is no
  lower than before.
\<close>

theorem remove_liquidity_never_dilutes:
  assumes "fungibles_spec env bal frz" "tokens_spec env bal frz issued hold"
    and "pool_apart env frz w b q p acc withdraw_to"
    and "remove_liquidity ensure_signed env origin b q burn b_min q_min withdraw_to w = (Ok u, w')"
  shows "(\<forall>a. a = b \<or> a = q \<longrightarrow>
        bal (ledger w') a acc + bal (ledger w') a withdraw_to = bal (ledger w) a acc + bal (ledger w) a withdraw_to
        \<and> bal (ledger w) a acc * issued (ledger w') (lp_token p) \<le> bal (ledger w') a acc * issued (ledger w) (lp_token p))
    \<and> issued (ledger w) (lp_token p) = issued (ledger w') (lp_token p) + unat burn"
proof (rule remove_liquidity_effect [OF assms])
  fix ba qa
  assume e: "bal (ledger w) b acc = bal (ledger w') b acc + ba" "bal (ledger w) q acc = bal (ledger w') q acc + qa"
    "bal (ledger w') b withdraw_to = bal (ledger w) b withdraw_to + ba"
    "bal (ledger w') q withdraw_to = bal (ledger w) q withdraw_to + qa"
    "issued (ledger w) (lp_token p) = issued (ledger w') (lp_token p) + unat burn"
    "ba * issued (ledger w) (lp_token p) \<le> unat burn * bal (ledger w) b acc"
    "qa * issued (ledger w) (lp_token p) \<le> unat burn * bal (ledger w) q acc"
  show ?thesis
    using share_law(2) [of ba "bal (ledger w) b acc" "unat burn" "issued (ledger w) (lp_token p)"]
      share_law(2) [of qa "bal (ledger w) q acc" "unat burn" "issued (ledger w) (lp_token p)"] e
    by auto
qed

theorem remove_liquidity_never_dilutes_witness:
  "\<exists>w. remove_liquidity signed_by table_env 0 0 1 200 0 0 7 market_world = (Ok (), w)
    \<and> unat (table_lp (ledger w) 0 0) = 800 \<and> 1000 * 800 \<le> table_bal (ledger w) 0 1001 * 1000"
proof -
  have "fst (remove_liquidity signed_by table_env 0 0 1 200 0 0 7 market_world) = Ok ()"
    by code_simp
  then obtain w where w: "remove_liquidity signed_by table_env 0 0 1 200 0 0 7 market_world = (Ok (), w)"
    by (metis prod.collapse)
  note r = remove_liquidity_never_dilutes [OF table_fungibles table_tokens_spec market_apart w]
  show ?thesis
    using r [THEN conjunct2] r [THEN conjunct1, rule_format, of 0] w
    by (simp add: market_world_def market_table_def market_pool_def pool_new_def)
qed

text \<open>
  C11. No profit from a round trip: who deposits into a pool that has tokens and then burns exactly what the deposit
  minted, to the same account, ends with at most the balances they started with, in both assets.
\<close>

theorem deposit_then_withdraw_never_gains:
  assumes "fungibles_spec env bal frz" "tokens_spec env bal frz issued hold"
    and "pool_apart env frz w b q p acc sender" "ensure_signed origin = Ok sender"
    and "add_liquidity ensure_signed env origin b q b_des q_des b_min q_min sender w = (Ok u, w1)"
    and "0 < issued (ledger w) (lp_token p)"
    and "unat burn = issued (ledger w1) (lp_token p) - issued (ledger w) (lp_token p)"
    and "remove_liquidity ensure_signed env origin b q burn 0 0 sender w1 = (Ok v, w2)"
  shows "bal (ledger w2) b sender \<le> bal (ledger w) b sender \<and> bal (ledger w2) q sender \<le> bal (ledger w) q sender"
proof (rule add_liquidity_effect [OF assms(1-6)])
  fix ba qa m
  assume e: "bal (ledger w1) b acc = bal (ledger w) b acc + ba" "bal (ledger w1) q acc = bal (ledger w) q acc + qa"
    "bal (ledger w) b sender = bal (ledger w1) b sender + ba" "bal (ledger w) q sender = bal (ledger w1) q sender + qa"
    "issued (ledger w1) (lp_token p) = issued (ledger w) (lp_token p) + m"
    "m * bal (ledger w) b acc \<le> ba * issued (ledger w) (lp_token p)"
    "m * bal (ledger w) q acc \<le> qa * issued (ledger w) (lp_token p)"
    "frz (ledger w1) = frz (ledger w)"
  have apart: "pool_apart env frz w1 b q p acc sender"
    using assms(3) e(8) add_liquidity_pools [OF assms(5)] by (simp add: pool_apart_def)
  have burn: "unat burn = m"
    using assms(7) e(5) by simp
  show ?thesis
  proof (rule remove_liquidity_effect [OF assms(1,2) apart assms(8)])
    fix x y
    assume f: "bal (ledger w2) b sender = bal (ledger w1) b sender + x" "bal (ledger w2) q sender = bal (ledger w1) q sender + y"
      "x * issued (ledger w1) (lp_token p) \<le> unat burn * bal (ledger w1) b acc"
      "y * issued (ledger w1) (lp_token p) \<le> unat burn * bal (ledger w1) q acc"
    have "x \<le> ba" "y \<le> qa"
      using round_trip_law [OF e(6) _ assms(6)] round_trip_law [OF e(7) _ assms(6)] f(3,4) unfolding burn e(1,2,5) by blast+
    then show ?thesis
      using e(3,4) f(1,2) by simp
  qed
qed

theorem deposit_then_withdraw_never_gains_witness:
  "\<exists>w1 w2. add_liquidity signed_by table_env 7 0 1 200 500 0 0 7 market_world = (Ok (), w1)
    \<and> remove_liquidity signed_by table_env 7 0 1 200 0 0 7 w1 = (Ok (), w2) \<and> table_bal (ledger w2) 0 7 \<le> 10000"
proof (rule market_liquidity)
  fix w1 w2
  assume w: "add_liquidity signed_by table_env 7 0 1 200 500 0 0 7 market_world = (Ok (), w1)"
    "remove_liquidity signed_by table_env 7 0 1 200 0 0 7 w1 = (Ok (), w2)" and l: "table_lp (ledger w1) 0 0 = 1200"
  have old: "0 < unat (table_lp (ledger market_world) (lp_token market_pool) 0)"
    and burn: "unat (200 :: amount) = unat (table_lp (ledger w1) (lp_token market_pool) 0) - unat (table_lp (ledger market_world) (lp_token market_pool) 0)"
    using l by (simp_all add: market_world_def market_table_def market_pool_def pool_new_def)
  from deposit_then_withdraw_never_gains [OF table_fungibles table_tokens_spec market_apart refl w(1) old burn w(2)] w
  show ?thesis
    by (auto simp: market_world_def market_table_def)
qed

text \<open>
  C31. Creating a pool: when \<open>create_pool\<close> succeeds, the assets differ, tick and lot size are positive, and
  the storage gains exactly an empty pool under the id of the pair, which had none, with the next token as its
  liquidity token, and the token after it becomes the next one. From then on creating that pool again is \<open>PoolExists\<close>
  and changes nothing, whoever signs and whatever the parameters of the new pool.
\<close>

theorem create_pool_once:
  assumes "create_pool ensure_signed env origin b bd q qd fee tick lot pd w = (Ok u, w')"
  shows "\<exists>i n m. locate env b q = Ok i \<and> b \<noteq> q \<and> 0 < tick \<and> 0 < lot \<and> pools w i = None
    \<and> next_token env w = Some n \<and> lp_increment env n = Some m
    \<and> pools w' = (pools w)(i \<mapsto> pool_new n fee tick lot pd bd qd) \<and> next_pool_asset_id w' = Some m
    \<and> (\<forall>origin' who bd' qd' fee' tick' lot' pd'. ensure_signed origin' = Ok who \<longrightarrow> 0 < tick' \<longrightarrow> 0 < lot' \<longrightarrow>
        create_pool ensure_signed env origin' b bd' q qd' fee' tick' lot' pd' w' = (Err (Module PoolExists), w'))"
proof (rule create_pool_Ok [OF assms])
  fix i n m
  assume s: "locate env b q = Ok i" "b \<noteq> q" "0 < tick" "0 < lot" "pools w i = None" "next_token env w = Some n"
    "lp_increment env n = Some m" "pools w' = (pools w)(i \<mapsto> pool_new n fee tick lot pd bd qd)" "next_pool_asset_id w' = Some m"
  then have "create_pool ensure_signed env origin' b bd' q qd' fee' tick' lot' pd' w' = (Err (Module PoolExists), w')"
    if "ensure_signed origin' = Ok who" "0 < tick'" "0 < lot'" for origin' who bd' qd' fee' tick' lot' pd'
    using that by (simp add: create_pool_def require_bind locate_pool_def bind_def basic_calls)
  with s show ?thesis
    by blast
qed

theorem create_pool_once_witness:
  "\<exists>w. create_pool signed_by table_env 7 0 0 1 0 0 1 1 0 empty_world = (Ok (), w)
    \<and> create_pool signed_by table_env 5 0 0 1 0 0 2 2 0 w = (Err (Module PoolExists), w)"
proof -
  obtain w where w: "create_pool signed_by table_env 7 0 0 1 0 0 1 1 0 empty_world = (Ok (), w)"
    using create_in_empty by (auto simp: dispatch_def)
  then show ?thesis
    using create_pool_once [OF w] by (auto simp: word_gt_0)
qed

end
