(* ===== verification/Ops.thy ===== *)
theory Ops
  imports Ledger
begin



datatype pays = Pays_Yes | Pays_No




subsection \<open>Migration\<close>






subsection \<open>What the registries promise\<close>














subsection \<open>A registry of tables\<close>









subsection \<open>Properties\<close>



end
