(* ===== verification/Weights.thy ===== *)
theory Weights
  imports Prelude
begin

text \<open>
  Weights of the calls (\<open>pallets/hybrid-orderbook/src/weights.rs\<close>, \<open>ops/src/weights.rs\<close> and
  \<open>runtime/src/weights\<close>). The type \<open>Weight\<close> with its constructors is code of \<open>sp_weights\<close>: the record
  \<open>weight_ops\<close> is the parameter for it, with the cost of database accesses of the runtime or of
  \<open>RocksDbWeight\<close>; \<open>weight_spec\<close> is what is relied on of it, in terms of the two components of a weight.
\<close>

record 'w weight_ops =
  from_parts :: "64 word \<Rightarrow> 64 word \<Rightarrow> 'w"
  w_add :: "'w \<Rightarrow> 'w \<Rightarrow> 'w"
  w_mul :: "'w \<Rightarrow> 64 word \<Rightarrow> 'w"
  db_reads :: "64 word \<Rightarrow> 'w"
  db_writes :: "64 word \<Rightarrow> 'w"

definition saturating_mul :: "'a::len word \<Rightarrow> 'a word \<Rightarrow> 'a word" where
  "saturating_mul a b = (case checked_mul a b of Some c \<Rightarrow> c | None \<Rightarrow> - 1)"

subsection \<open>The order book\<close>

definition create_pool_weight :: "'w weight_ops \<Rightarrow> 'w" where
  "create_pool_weight W = w_add W (w_add W (from_parts W 97241000 6360) (db_reads W 8)) (db_writes W 5)"

definition add_liquidity_weight :: "'w weight_ops \<Rightarrow> 'w" where
  "add_liquidity_weight W = w_add W (w_add W (from_parts W 153331000 11426) (db_reads W 11)) (db_writes W 10)"

definition remove_liquidity_weight :: "'w weight_ops \<Rightarrow> 'w" where
  "remove_liquidity_weight W = w_add W (w_add W (from_parts W 134350000 11426) (db_reads W 9)) (db_writes W 8)"

definition swap_exact_tokens_for_tokens_weight :: "'w weight_ops \<Rightarrow> 32 word \<Rightarrow> 'w" where
  "swap_exact_tokens_for_tokens_weight W n =
     w_add W (w_add W (w_add W (w_add W
       (from_parts W 81461000 990)
       (w_mul W (from_parts W 11223703 0) (ucast n)))
       (db_reads W (saturating_mul 3 (ucast n))))
       (db_writes W (saturating_mul 3 (ucast n))))
       (w_mul W (from_parts W 0 5218) (ucast n))"

definition swap_tokens_for_exact_tokens_weight :: "'w weight_ops \<Rightarrow> 32 word \<Rightarrow> 'w" where
  "swap_tokens_for_exact_tokens_weight W n =
     w_add W (w_add W (w_add W (w_add W
       (from_parts W 81025000 990)
       (w_mul W (from_parts W 11040712 0) (ucast n)))
       (db_reads W (saturating_mul 3 (ucast n))))
       (db_writes W (saturating_mul 3 (ucast n))))
       (w_mul W (from_parts W 0 5218) (ucast n))"

definition touch_weight :: "'w weight_ops \<Rightarrow> 32 word \<Rightarrow> 'w" where
  "touch_weight W n =
     w_add W (w_add W (w_add W
       (from_parts W 48502032 6360)
       (w_mul W (from_parts W 19450978 0) (ucast n)))
       (db_reads W 8))
       (db_writes W (saturating_mul 2 (ucast n)))"

subsection \<open>Migration\<close>

definition migrate_to_new_account_weight :: "'w weight_ops \<Rightarrow> 'w" where
  "migrate_to_new_account_weight W = w_add W (w_add W (from_parts W 231676000 11426) (db_reads W 12)) (db_writes W 11)"

subsection \<open>Other pallets of the runtime\<close>

definition batch_weight :: "'w weight_ops \<Rightarrow> 32 word \<Rightarrow> 'w" where
  "batch_weight W c =
     w_add W (w_add W (from_parts W 5743000 0) (from_parts W 0 0)) (w_mul W (from_parts W 3621902 0) (ucast c))"

definition as_derivative_weight :: "'w weight_ops \<Rightarrow> 'w" where
  "as_derivative_weight W = w_add W (from_parts W 4707000 0) (from_parts W 0 0)"

definition batch_all_weight :: "'w weight_ops \<Rightarrow> 32 word \<Rightarrow> 'w" where
  "batch_all_weight W c =
     w_add W (w_add W (from_parts W 5555000 0) (from_parts W 0 0)) (w_mul W (from_parts W 3847534 0) (ucast c))"

definition dispatch_as_weight :: "'w weight_ops \<Rightarrow> 'w" where
  "dispatch_as_weight W = w_add W (from_parts W 7617000 0) (from_parts W 0 0)"

definition force_batch_weight :: "'w weight_ops \<Rightarrow> 32 word \<Rightarrow> 'w" where
  "force_batch_weight W c =
     w_add W (w_add W (from_parts W 5576000 0) (from_parts W 0 0)) (w_mul W (from_parts W 3625441 0) (ucast c))"

definition dispatch_as_fallible_weight :: "'w weight_ops \<Rightarrow> 'w" where
  "dispatch_as_fallible_weight W = w_add W (from_parts W 7583000 0) (from_parts W 0 0)"

definition if_else_weight :: "'w weight_ops \<Rightarrow> 'w" where
  "if_else_weight W = w_add W (from_parts W 9337000 0) (from_parts W 0 0)"

definition storage_weight_reclaim_weight :: "'w weight_ops \<Rightarrow> 'w" where
  "storage_weight_reclaim_weight W = w_add W (from_parts W 4122000 0) (from_parts W 0 0)"

definition charge_transaction_payment_weight :: "'w weight_ops \<Rightarrow> 'w" where
  "charge_transaction_payment_weight W =
     w_add W (w_add W (w_add W (from_parts W 44769000 0) (from_parts W 0 6196)) (db_reads W 2)) (db_writes W 2)"

text \<open>\<open>WEIGHT_REF_TIME_PER_NANOS\<close> of \<open>frame_support\<close> is the argument \<open>nanos\<close>; the plain products wrap.\<close>

definition block_execution_weight :: "64 word \<Rightarrow> 'w weight_ops \<Rightarrow> 'w" where
  "block_execution_weight nanos W = from_parts W (saturating_mul nanos 5000000) 0"

definition extrinsic_base_weight :: "64 word \<Rightarrow> 'w weight_ops \<Rightarrow> 'w" where
  "extrinsic_base_weight nanos W = from_parts W (saturating_mul nanos 125000) 0"

record db_weight =
  db_read :: "64 word"
  db_write :: "64 word"

definition rocksdb_weight :: "64 word \<Rightarrow> db_weight" where
  "rocksdb_weight nanos = \<lparr>db_read = 25000 * nanos, db_write = 100000 * nanos\<rparr>"

definition paritydb_weight :: "64 word \<Rightarrow> db_weight" where
  "paritydb_weight nanos = \<lparr>db_read = 8000 * nanos, db_write = 50000 * nanos\<rparr>"

subsection \<open>What \<open>sp_weights\<close> promises\<close>

text \<open>The components of a weight are \<open>rt\<close> (computation) and \<open>ps\<close> (proof size), added and scaled with
  saturation; accesses to the database \<open>db\<close> cost computation only.\<close>

definition weight_spec :: "'w weight_ops \<Rightarrow> ('w \<Rightarrow> 64 word) \<Rightarrow> ('w \<Rightarrow> 64 word) \<Rightarrow> db_weight \<Rightarrow> bool" where
  "weight_spec W rt ps db \<longleftrightarrow>
     (\<forall>a b. rt (from_parts W a b) = a \<and> ps (from_parts W a b) = b)
     \<and> (\<forall>x y. rt (w_add W x y) = saturating_add (rt x) (rt y) \<and> ps (w_add W x y) = saturating_add (ps x) (ps y))
     \<and> (\<forall>x n. rt (w_mul W x n) = saturating_mul (rt x) n \<and> ps (w_mul W x n) = saturating_mul (ps x) n)
     \<and> (\<forall>n. rt (db_reads W n) = saturating_mul (db_read db) n \<and> ps (db_reads W n) = 0)
     \<and> (\<forall>n. rt (db_writes W n) = saturating_mul (db_write db) n \<and> ps (db_writes W n) = 0)"

lemma weight_specD:
  assumes "weight_spec W rt ps db"
  shows "rt (from_parts W a b) = a" "ps (from_parts W a b) = b"
    "rt (w_add W x y) = saturating_add (rt x) (rt y)" "ps (w_add W x y) = saturating_add (ps x) (ps y)"
    "rt (w_mul W x n) = saturating_mul (rt x) n" "ps (w_mul W x n) = saturating_mul (ps x) n"
    "rt (db_reads W n) = saturating_mul (db_read db) n" "ps (db_reads W n) = 0"
    "rt (db_writes W n) = saturating_mul (db_write db) n" "ps (db_writes W n) = 0"
  using assms by (simp_all add: weight_spec_def)

text \<open>Weights as pairs.\<close>

definition pair_weights :: "db_weight \<Rightarrow> (64 word \<times> 64 word) weight_ops" where
  "pair_weights db =
     \<lparr>from_parts = Pair, w_add = (\<lambda>(a, b) (c, d). (saturating_add a c, saturating_add b d)),
      w_mul = (\<lambda>(a, b) n. (saturating_mul a n, saturating_mul b n)),
      db_reads = (\<lambda>n. (saturating_mul (db_read db) n, 0)), db_writes = (\<lambda>n. (saturating_mul (db_write db) n, 0))\<rparr>"

lemma pair_weights_spec: "weight_spec (pair_weights db) fst snd db"
  by (simp add: weight_spec_def pair_weights_def split_def)

subsection \<open>Saturating arithmetic\<close>

lemma unat_max: "unat (- 1 :: 'a::len word) = 2 ^ LENGTH('a) - 1"
  by (simp add: unsigned_minus_1_eq_mask mask_eq_exp_minus_1)

lemma unat_saturating_add: "unat (saturating_add a b) = min (unat a + unat b) (2 ^ LENGTH('a) - 1)" for a b :: "'a::len word"
  by (auto simp: saturating_add_def unat_word_ariths unat_max min_def)

lemma unat_saturating_mul: "unat (saturating_mul a b) = min (unat a * unat b) (2 ^ LENGTH('a) - 1)" for a b :: "'a::len word"
proof (cases "unat a * unat b < 2 ^ LENGTH('a)")
  case True
  then have "unat a * unat b \<le> 2 ^ LENGTH('a) - 1"
    by linarith
  with True show ?thesis
    by (simp add: saturating_mul_def checked_mul_def unat_word_ariths)
next
  case False
  then have "2 ^ LENGTH('a) - 1 \<le> unat a * unat b"
    by linarith
  with False show ?thesis
    by (simp add: saturating_mul_def checked_mul_def unat_max)
qed

lemma saturating_mono:
  "a \<le> c \<Longrightarrow> b \<le> d \<Longrightarrow> saturating_add a b \<le> saturating_add c d"
  "a \<le> c \<Longrightarrow> b \<le> d \<Longrightarrow> saturating_mul a b \<le> saturating_mul c d"
  for a b c d :: "'a::len word"
  unfolding word_le_nat_alt unat_saturating_add unat_saturating_mul
  by (rule min.mono; simp add: add_mono mult_le_mono)+

lemma ucast_mono: "m \<le> n \<Longrightarrow> (ucast (m :: 32 word) :: 64 word) \<le> ucast n"
  using unsigned_less [of m, where 'a = nat] unsigned_less [of n, where 'a = nat]
  by (simp add: word_le_nat_alt unsigned_ucast_eq take_bit_nat_eq_self)

lemma touch_weight_mono:
  assumes "weight_spec W rt ps db" "m \<le> n"
  shows "rt (touch_weight W m) \<le> rt (touch_weight W n) \<and> ps (touch_weight W m) \<le> ps (touch_weight W n)"
  unfolding touch_weight_def weight_specD [OF assms(1)]
  by (intro conjI saturating_mono order_refl ucast_mono assms(2))

lemma swap_weight_mono:
  assumes "weight_spec W rt ps db" "m \<le> n"
  shows "rt (swap_exact_tokens_for_tokens_weight W m) \<le> rt (swap_exact_tokens_for_tokens_weight W n)"
    "ps (swap_exact_tokens_for_tokens_weight W m) \<le> ps (swap_exact_tokens_for_tokens_weight W n)"
    "rt (swap_tokens_for_exact_tokens_weight W m) \<le> rt (swap_tokens_for_exact_tokens_weight W n)"
    "ps (swap_tokens_for_exact_tokens_weight W m) \<le> ps (swap_tokens_for_exact_tokens_weight W n)"
  unfolding swap_exact_tokens_for_tokens_weight_def swap_tokens_for_exact_tokens_weight_def weight_specD [OF assms(1)]
  by (intro saturating_mono order_refl ucast_mono assms(2))+

end
