(* ===== verification/RuntimeConfig.thy ===== *)
theory RuntimeConfig
  imports Liquidity Weights
begin

text \<open>
  The runtime (\<open>runtime/src/lib.rs\<close>, \<open>runtime/src/configs\<close> and the pool queries of \<open>runtime/src/apis.rs\<close>):
  its constants, the fee of a weight, the limits of a block, and the configuration of the order book as an
  \<open>env\<close> over given registries. \<open>Perbill\<close>, \<open>WEIGHT_REF_TIME_PER_SECOND\<close> and \<open>MAX_POV_SIZE\<close> are of other
  crates: arguments of the definitions.
\<close>

subsection \<open>Constants\<close>

definition MILLISECS_PER_BLOCK :: "64 word" where
  "MILLISECS_PER_BLOCK = 6000"

definition SLOT_DURATION :: "64 word" where
  "SLOT_DURATION = MILLISECS_PER_BLOCK"

definition MINUTES :: "32 word" where
  "MINUTES = 60000 div ucast MILLISECS_PER_BLOCK"

definition HOURS :: "32 word" where
  "HOURS = MINUTES * 60"

definition DAYS :: "32 word" where
  "DAYS = HOURS * 24"

definition UNIT :: amount where
  "UNIT = 1000000000000"

definition MILLIUNIT :: amount where
  "MILLIUNIT = 1000000000"

definition MICROUNIT :: amount where
  "MICROUNIT = 1000000"

definition EXISTENTIAL_DEPOSIT :: amount where
  "EXISTENTIAL_DEPOSIT = MILLIUNIT"

definition TransactionByteFee :: amount where
  "TransactionByteFee = 10 * MICROUNIT"

text \<open>\<open>Period\<close> of the sessions, which is \<open>SessionLength\<close> too.\<close>

definition Period :: "32 word" where
  "Period = 6 * HOURS"

lemmas runtime_constants = MILLISECS_PER_BLOCK_def SLOT_DURATION_def MINUTES_def HOURS_def DAYS_def UNIT_def MILLIUNIT_def
  MICROUNIT_def EXISTENTIAL_DEPOSIT_def TransactionByteFee_def Period_def

subsection \<open>Fees of weights\<close>

record fee_coefficient =
  degree :: "8 word"
  negative :: bool
  coeff_frac :: "32 word"
  coeff_integer :: amount

text \<open>\<open>WeightToFee::polynomial\<close>; \<open>from_rational\<close> is that of \<open>Perbill\<close>, in parts of a billion.\<close>

definition polynomial :: "(amount \<Rightarrow> amount \<Rightarrow> 32 word) \<Rightarrow> 64 word \<Rightarrow> ('e, fee_coefficient list) result" where
  "polynomial from_rational base_ref_time =
     (let p = MILLIUNIT div 10; q = 100 * ucast base_ref_time in
      and_then (rem_word p q) (\<lambda>r.
      and_then (div_word p q) (\<lambda>i.
      Ok [\<lparr>degree = 1, negative = False, coeff_frac = from_rational r q, coeff_integer = i\<rparr>])))"

subsection \<open>Limits of a block\<close>

definition maximum_block_weight :: "64 word \<Rightarrow> 64 word \<Rightarrow> 'w weight_ops \<Rightarrow> 'w" where
  "maximum_block_weight ref_time_per_second max_pov_size W = from_parts W (saturating_mul ref_time_per_second 2) max_pov_size"

definition NORMAL_DISPATCH_RATIO :: nat where
  "NORMAL_DISPATCH_RATIO = 75"

definition AVERAGE_ON_INITIALIZE_RATIO :: nat where
  "AVERAGE_ON_INITIALIZE_RATIO = 5"

record 'w block_weights =
  base_block :: 'w
  base_extrinsic :: 'w
  normal_max_total :: 'w
  operational_max_total :: 'w
  operational_reserved :: 'w
  avg_block_initialization :: nat

text \<open>What \<open>RuntimeBlockWeights\<close> gives the builder; \<open>percent_of\<close> multiplies a weight by a percentage and
  \<open>w_sub\<close> subtracts.\<close>

definition RuntimeBlockWeights ::
  "(nat \<Rightarrow> 'w \<Rightarrow> 'w) \<Rightarrow> ('w \<Rightarrow> 'w \<Rightarrow> 'w) \<Rightarrow> 64 word \<Rightarrow> 64 word \<Rightarrow> 64 word \<Rightarrow> 'w weight_ops \<Rightarrow> 'w block_weights"
where
  "RuntimeBlockWeights percent_of w_sub nanos ref_time_per_second max_pov_size W =
     (let max_block = maximum_block_weight ref_time_per_second max_pov_size W in
      \<lparr>base_block = block_execution_weight nanos W,
       base_extrinsic = extrinsic_base_weight nanos W,
       normal_max_total = percent_of NORMAL_DISPATCH_RATIO max_block,
       operational_max_total = max_block,
       operational_reserved = w_sub max_block (percent_of NORMAL_DISPATCH_RATIO max_block),
       avg_block_initialization = AVERAGE_ON_INITIALIZE_RATIO\<rparr>)"

subsection \<open>The order book of the runtime\<close>

datatype native_or_with_id = Native | WithId "32 word"

text \<open>The constants and the locator of \<open>pallet_hybrid_orderbook::Config\<close>, over the registries of \<open>env\<close>.
  Fees of withdrawal are in parts of a million.\<close>

definition runtime_env ::
  "(native_or_with_id, 'acc, 'lp, 'l) env \<Rightarrow> (native_or_with_id, 'acc, 'lp, 'l) env"
where
  "runtime_env env = env\<lparr>
     lp_fee := 3,
     pool_setup_fee := 1 * MILLIUNIT,
     pool_setup_fee_asset := Native,
     order_expiration := DAYS,
     liquidity_withdrawal_fee := 0,
     mint_min_liquidity := 100,
     max_swap_path_length := 4,
     locate := base_quote_pool_id\<rparr>"

text \<open>\<open>Result::ok\<close>.\<close>

fun result_ok :: "('e, 'a) result \<Rightarrow> ('f, 'a option) result" where
  "result_ok (Ok a) = Ok (Some a)"
| "result_ok (Err e) = Ok None"
| "result_ok Panic = Panic"
| "result_ok Diverge = Diverge"

definition api_get_pool_query ::
  "(native_or_with_id, 'acc, 'lp, 'l) env \<Rightarrow> native_or_with_id \<Rightarrow> native_or_with_id \<Rightarrow> (native_or_with_id, 'acc, 'lp, 'l) world
    \<Rightarrow> ('e, ((128, 'acc, 32 word) orderbook, amount) pool_query option) result"
where
  "api_get_pool_query env base_asset quote_asset w = result_ok (get_pool_query (runtime_env env) base_asset quote_asset w)"

definition api_get_pool_metadata ::
  "(native_or_with_id, 'acc, 'lp, 'l) env \<Rightarrow> native_or_with_id \<Rightarrow> native_or_with_id \<Rightarrow> (native_or_with_id, 'acc, 'lp, 'l) world
    \<Rightarrow> ('e, amount pool_metadata option) result"
where
  "api_get_pool_metadata env base_asset quote_asset w = result_ok (get_pool_metadata (runtime_env env) base_asset quote_asset w)"

subsection \<open>Messages with free execution\<close>

text \<open>\<open>ParentOrParentsExecutivePlurality::contains\<close>, of a location unpacked into its parents and its junctions;
  \<open>executive_plurality\<close> recognises \<open>Plurality { id: BodyId::Executive, .. }\<close>.\<close>

fun free_execution :: "('j \<Rightarrow> bool) \<Rightarrow> 8 word \<times> 'j list \<Rightarrow> bool" where
  "free_execution executive_plurality (parents, []) \<longleftrightarrow> parents = 1"
| "free_execution executive_plurality (parents, [j]) \<longleftrightarrow> parents = 1 \<and> executive_plurality j"
| "free_execution executive_plurality (parents, j # k # js) \<longleftrightarrow> False"

subsection \<open>Lemmas\<close>

lemma runtime_env_simps [simp]:
  "lp_fee (runtime_env env) = 3" "pool_setup_fee (runtime_env env) = MILLIUNIT" "order_expiration (runtime_env env) = DAYS"
  "mint_min_liquidity (runtime_env env) = 100" "max_swap_path_length (runtime_env env) = 4"
  "locate (runtime_env env) = base_quote_pool_id"
  by (simp_all add: runtime_env_def)

lemma days: "DAYS = 14400"
  by code_simp

text \<open>\<open>Perbill::from_rational\<close> rounds down.\<close>

definition perbill_spec :: "(amount \<Rightarrow> amount \<Rightarrow> 32 word) \<Rightarrow> bool" where
  "perbill_spec from_rational \<longleftrightarrow>
     (\<forall>p q. 0 < q \<and> p \<le> q \<longrightarrow> unat (from_rational p q) = unat p * 10 ^ 9 div unat q)"

definition floor_perbill :: "amount \<Rightarrow> amount \<Rightarrow> 32 word" where
  "floor_perbill p q = of_nat (unat p * 10 ^ 9 div unat q)"

lemma floor_perbill_spec: "perbill_spec floor_perbill"
  unfolding perbill_spec_def
proof (intro allI impI)
  fix p q :: amount assume "0 < q \<and> p \<le> q"
  then have "unat p \<le> unat q" "0 < unat q" by (simp_all add: word_le_nat_alt word_less_nat_alt)
  then have "unat p * 10 ^ 9 div unat q \<le> 10 ^ 9"
    by (metis div_le_mono mult.commute mult_le_mono2 nonzero_mult_div_cancel_left less_not_refl)
  then show "unat (floor_perbill p q) = unat p * 10 ^ 9 div unat q"
    by (simp add: floor_perbill_def unsigned_of_nat take_bit_nat_eq_self)
qed

subsection \<open>Properties\<close>

text \<open>The constants of the runtime meet what the order book demands of them: the integrity test passes, the
  fee of the liquidity providers leaves the factor 997 of a thousand, the fee of a new pool is at least the
  existential deposit, and orders expire after the blocks of one day.\<close>

theorem runtime_constants_sane:
  "integrity_test (runtime_env env) = Ok () \<and> fee_factor (lp_fee (runtime_env env)) = Ok 997
    \<and> EXISTENTIAL_DEPOSIT \<le> pool_setup_fee (runtime_env env)
    \<and> unat (order_expiration (runtime_env env)) * unat MILLISECS_PER_BLOCK = 24 * 60 * 60 * 1000"
  by (simp add: integrity_test_def days fee_factor_def runtime_constants)

text \<open>The fee of the base weight of an extrinsic is one thousandth of \<open>MILLIUNIT\<close>.\<close>

theorem base_weight_fee:
  assumes "weight_spec W rt ps db" and "perbill_spec from_rational"
  shows "\<exists>c. polynomial from_rational (rt (extrinsic_base_weight 1000 W)) = Ok [c] \<and> degree c = 1 \<and> \<not> negative c
    \<and> unat (coeff_integer c) * unat (rt (extrinsic_base_weight 1000 W))
      + unat (coeff_frac c) * unat (rt (extrinsic_base_weight 1000 W)) div 10 ^ 9 = unat MICROUNIT"
proof -
  have base: "rt (extrinsic_base_weight 1000 W) = 125000000"
    unfolding extrinsic_base_weight_def weight_specD [OF assms(1)] by code_simp
  have "unat (from_rational 100000000 12500000000) = 8000000"
    using assms(2) [unfolded perbill_spec_def, rule_format, of 12500000000 100000000] by simp
  then show ?thesis
    unfolding base by (simp add: polynomial_def rem_word_def div_word_def runtime_constants)
qed

theorem base_weight_fee_witness:
  "\<exists>c. polynomial floor_perbill (fst (extrinsic_base_weight 1000 (pair_weights (rocksdb_weight 1000)))) = Ok [c]"
  using base_weight_fee [OF pair_weights_spec floor_perbill_spec, of "rocksdb_weight 1000"] by blast




end
