(* ===== verification/Preconf.thy ===== *)
theory Preconf
  imports Prelude "HOL-Library.AList" "HOL-Library.Code_Target_Nat"
begin

text \<open>
  Block authoring with preconfirmations (\<open>client/authorship/src/preconf.rs\<close> and
  \<open>client/primitives/src/authorship/preconf.rs\<close>). The block builder, the transaction pool, the clock, the
  proof recorder and the hash are code of other crates: fields of the record \<open>host\<close>. Instants are
  nanoseconds since the start of the clock, and reading \<open>n\<close> of the clock is \<open>clock h n\<close>. The tasks that
  \<open>propose_with\<close> spawns and \<open>select!\<close> are an explicit sequence of signals to the authoring loop.
\<close>

subsection \<open>Data\<close>

datatype ('v, 'o) chain_error = ValidityFailed 'v | Application 'o | OtherFailed 'o

datatype end_reason = NoMoreTransactions | HitDeadline | HitBlockSizeLimit | HitBlockWeightLimit

record 'hash block_base =
  base_parent_hash :: 'hash
  base_block_number :: "32 word"
  base_block_size_limit :: "64 word"
  base_timestamp :: "64 word"

record ('x, 'h) block_diff =
  diff_extrinsics :: "'x list"
  diff_hashes :: "'h list"

text \<open>The metadata are the reason of the end and the number of extrinsics.\<close>

record ('x, 'h, 'hash) payload =
  payload_id :: "8 word list"
  payload_index :: "64 word"
  payload_base :: "'hash block_base option"
  payload_diff :: "('x, 'h) block_diff"
  payload_metadata :: "end_reason \<times> nat"

text \<open>What other crates provide.\<close>

record ('b, 'x, 'v, 'o, 'r, 'tx, 'h, 'hash) host =
  push :: "'b \<Rightarrow> 'x \<Rightarrow> (('v, 'o) chain_error + unit) \<times> 'b"
  estimate_block_size :: "'b \<Rightarrow> bool \<Rightarrow> 64 word"
  encoded_size :: "'x \<Rightarrow> 64 word"
  exhausted_resources :: "'v \<Rightarrow> bool"
  was_mandatory :: "'v \<Rightarrow> bool"
  next_ready :: "'r \<Rightarrow> 'tx option \<times> 'r"
  report_invalid :: "'r \<Rightarrow> 'tx \<Rightarrow> 'r"
  tx_data :: "'tx \<Rightarrow> 'x"
  tx_hash :: "'tx \<Rightarrow> 'h"
  clock :: "nat \<Rightarrow> nat"
  epoch_millis :: "nat option"
  mul_floor :: "nat \<Rightarrow> 64 word \<Rightarrow> 64 word"
  hash_bytes :: "'hash \<Rightarrow> 8 word list"
  twox_64 :: "8 word list \<Rightarrow> 8 word list"
  serialize :: "('x, 'h, 'hash) payload \<Rightarrow> string option"

definition MAX_SKIPPED_TRANSACTIONS :: nat where
  "MAX_SKIPPED_TRANSACTIONS = 8"

definition DEFAULT_SOFT_DEADLINE_PERCENT :: nat where
  "DEFAULT_SOFT_DEADLINE_PERCENT = 50"

definition new_block_base ::
  "('b, 'x, 'v, 'o, 'r, 'tx, 'h, 'hash) host \<Rightarrow> 'hash \<Rightarrow> 32 word \<Rightarrow> 64 word \<Rightarrow> (('v, 'o) chain_error, 'hash block_base) result"
where
  "new_block_base h parent_hash block_number size_limit =
     (case epoch_millis h of
        None \<Rightarrow> Panic
      | Some millis \<Rightarrow>
          Ok \<lparr>base_parent_hash = parent_hash, base_block_number = block_number, base_block_size_limit = size_limit,
              base_timestamp = of_nat millis\<rparr>)"

subsection \<open>Proposers\<close>

text \<open>Handles of other crates (spawn handle, client, pool, metrics, telemetry) are of the type \<open>'ext\<close>.\<close>

record 'ext factory =
  f_handles :: 'ext
  f_default_block_size_limit :: "64 word"
  f_soft_deadline_percent :: nat
  f_include_proof :: bool
  f_preconf_block_time :: "64 word"
  f_chain_block_time :: "64 word"

definition factory_new :: "64 word \<Rightarrow> 'ext \<Rightarrow> 64 word \<Rightarrow> 64 word \<Rightarrow> 'ext factory" where
  "factory_new default_limit handles chain_block_time preconf_block_time =
     \<lparr>f_handles = handles, f_default_block_size_limit = default_limit, f_soft_deadline_percent = DEFAULT_SOFT_DEADLINE_PERCENT,
      f_include_proof = False, f_preconf_block_time = preconf_block_time, f_chain_block_time = chain_block_time\<rparr>"

definition with_proof_recording :: "64 word \<Rightarrow> 'ext \<Rightarrow> 64 word \<Rightarrow> 64 word \<Rightarrow> 'ext factory" where
  "with_proof_recording default_limit handles chain_block_time preconf_block_time =
     \<lparr>f_handles = handles, f_default_block_size_limit = default_limit, f_soft_deadline_percent = DEFAULT_SOFT_DEADLINE_PERCENT,
      f_include_proof = True, f_preconf_block_time = preconf_block_time, f_chain_block_time = chain_block_time\<rparr>"

definition set_default_block_size_limit :: "'ext factory \<Rightarrow> 64 word \<Rightarrow> 'ext factory" where
  "set_default_block_size_limit f limit = f\<lparr>f_default_block_size_limit := limit\<rparr>"

definition set_soft_deadline :: "'ext factory \<Rightarrow> nat \<Rightarrow> 'ext factory" where
  "set_soft_deadline f percent = f\<lparr>f_soft_deadline_percent := percent\<rparr>"

record ('ext, 'hash) proposer =
  handles :: 'ext
  parent_hash :: 'hash
  parent_number :: "32 word"
  default_block_size_limit :: "64 word"
  include_proof_in_block_size_estimation :: bool
  soft_deadline_percent :: nat
  chain_block_time :: "64 word"
  preconf_block_time :: "64 word"

definition proposer_new ::
  "'ext \<Rightarrow> 'hash \<Rightarrow> 32 word \<Rightarrow> 64 word \<Rightarrow> nat \<Rightarrow> bool \<Rightarrow> 64 word \<Rightarrow> 64 word \<Rightarrow> ('ext, 'hash) proposer"
where
  "proposer_new ext hash number block_size_limit percent include_proof chain_time preconf_time =
     \<lparr>handles = ext, parent_hash = hash, parent_number = number, default_block_size_limit = block_size_limit,
      include_proof_in_block_size_estimation = include_proof, soft_deadline_percent = percent,
      chain_block_time = chain_time, preconf_block_time = preconf_time\<rparr>"

definition init_with_now :: "'ext factory \<Rightarrow> 'hash \<Rightarrow> 32 word \<Rightarrow> ('ext, 'hash) proposer" where
  "init_with_now f hash number =
     proposer_new (f_handles f) hash number (f_default_block_size_limit f) (f_soft_deadline_percent f)
       (f_include_proof f) (f_chain_block_time f) (f_preconf_block_time f)"

subsection \<open>Extrinsics\<close>

record ('b, 'r, 'x, 'h, 'v) authoring =
  builder :: 'b
  ready :: 'r
  readings :: nat
  skipped :: nat
  unqueue_invalid :: "('h \<times> 'v option) list"
  transaction_pushed :: bool
  extrinsics :: "'x list"
  extrinsics_hashes :: "'h list"

definition skip :: "('b, 'r, 'x, 'h, 'v) authoring \<Rightarrow> ('b, 'r, 'x, 'h, 'v) authoring" where
  "skip st = st\<lparr>skipped := Suc (skipped st)\<rparr>"

text \<open>One round of the loop of \<open>apply_extrinsics\<close>; the reason is the value of the \<open>break\<close>.\<close>

definition apply_round ::
  "('b, 'x, 'v, 'o, 'r, 'tx, 'h, 'hash) host \<Rightarrow> bool \<Rightarrow> nat \<Rightarrow> nat \<Rightarrow> 64 word \<Rightarrow> ('b, 'r, 'x, 'h, 'v) authoring
    \<Rightarrow> end_reason option \<times> ('b, 'r, 'x, 'h, 'v) authoring"
where
  "apply_round h include_proof soft_deadline deadline block_size_limit st =
     (case next_ready h (ready st) of
        (None, r) \<Rightarrow> (Some NoMoreTransactions, st\<lparr>ready := r\<rparr>)
      | (Some tx, r) \<Rightarrow>
          let now = clock h (readings st);
              st = st\<lparr>ready := r, readings := Suc (readings st)\<rparr>
          in
          if deadline < now then (Some HitDeadline, st)
          else if block_size_limit < estimate_block_size h (builder st) include_proof + encoded_size h (tx_data h tx) then
            let st = st\<lparr>ready := report_invalid h (ready st) tx\<rparr> in
            if skipped st < MAX_SKIPPED_TRANSACTIONS then (None, skip st)
            else if now < soft_deadline then (None, st)
            else (Some HitBlockSizeLimit, st)
          else
            (case push h (builder st) (tx_data h tx) of
               (Inr _, b) \<Rightarrow>
                 (None, st\<lparr>builder := b, transaction_pushed := True, extrinsics_hashes := extrinsics_hashes st @ [tx_hash h tx],
                   extrinsics := extrinsics st @ [tx_data h tx]\<rparr>)
             | (Inl e, b) \<Rightarrow>
                 let st = st\<lparr>builder := b, ready := report_invalid h (ready st) tx\<rparr> in
                 if (case e of ValidityFailed v \<Rightarrow> exhausted_resources h v | _ \<Rightarrow> False) then
                   if skipped st < MAX_SKIPPED_TRANSACTIONS then (None, skip st)
                   else
                     let now' = clock h (readings st); st = st\<lparr>readings := Suc (readings st)\<rparr> in
                     if now' < soft_deadline then (None, st) else (Some HitBlockWeightLimit, st)
                 else
                   (None, st\<lparr>unqueue_invalid := AList.update (tx_hash h tx)
                     (case e of ValidityFailed v \<Rightarrow> Some v | _ \<Rightarrow> None) (unqueue_invalid st)\<rparr>)))"

partial_function (option) apply_loop ::
  "('b, 'x, 'v, 'o, 'r, 'tx, 'h, 'hash) host \<Rightarrow> bool \<Rightarrow> nat \<Rightarrow> nat \<Rightarrow> 64 word \<Rightarrow> ('b, 'r, 'x, 'h, 'v) authoring
    \<Rightarrow> (end_reason \<times> ('b, 'r, 'x, 'h, 'v) authoring) option"
where
  "apply_loop h include_proof soft_deadline deadline block_size_limit st =
     (case apply_round h include_proof soft_deadline deadline block_size_limit st of
        (Some reason, st') \<Rightarrow> Some (reason, st')
      | (None, st') \<Rightarrow> apply_loop h include_proof soft_deadline deadline block_size_limit st')"

lemmas apply_loop_code [code] = apply_loop.simps

text \<open>\<open>as_micros().saturated_into::<u64>()\<close>.\<close>

definition saturated_micros :: "nat \<Rightarrow> 64 word" where
  "saturated_micros nanos = of_nat (min (nanos div 1000) (2 ^ 64 - 1))"

definition apply_extrinsics ::
  "('b, 'x, 'v, 'o, 'r, 'tx, 'h, 'hash) host \<Rightarrow> ('ext, 'hash) proposer \<Rightarrow> nat \<Rightarrow> 64 word \<Rightarrow> 'b \<Rightarrow> 'r \<Rightarrow> nat
    \<Rightarrow> (end_reason \<times> ('b, 'r, 'x, 'h, 'v) authoring) option"
where
  "apply_extrinsics h p deadline block_size_limit b r n =
     (let now = clock h n;
          left = deadline - now;
          soft_deadline = now + 1000 * unat (mul_floor h (soft_deadline_percent p) (saturated_micros left))
      in apply_loop h (include_proof_in_block_size_estimation p) soft_deadline deadline block_size_limit
           \<lparr>builder = b, ready = r, readings = Suc n, skipped = 0, unqueue_invalid = [], transaction_pushed = False,
            extrinsics = [], extrinsics_hashes = []\<rparr>)"

subsection \<open>Inherents\<close>

text \<open>The loop of \<open>apply_inherents\<close> over the inherents that the builder created.\<close>

fun push_inherents ::
  "('b, 'x, 'v, 'o, 'r, 'tx, 'h, 'hash) host \<Rightarrow> 'b \<Rightarrow> 'x list \<Rightarrow> (('v, 'o) chain_error, 'b) result"
where
  "push_inherents h b [] = Ok b"
| "push_inherents h b (inherent # inherents) =
     (case push h b inherent of
        (Inr _, b') \<Rightarrow> push_inherents h b' inherents
      | (Inl (ValidityFailed v), b') \<Rightarrow>
          if exhausted_resources h v then push_inherents h b' inherents
          else if was_mandatory h v then Err (ValidityFailed v)
          else push_inherents h b' inherents
      | (Inl _, b') \<Rightarrow> push_inherents h b' inherents)"

definition apply_inherents ::
  "('b, 'x, 'v, 'o, 'r, 'tx, 'h, 'hash) host \<Rightarrow> ('b \<Rightarrow> 'i \<Rightarrow> (('v, 'o) chain_error, 'x list \<times> 'b) result) \<Rightarrow> 'b \<Rightarrow> 'i
    \<Rightarrow> (('v, 'o) chain_error, 'b) result"
where
  "apply_inherents h create_inherents b inherent_data =
     and_then (create_inherents b inherent_data) (\<lambda>(inherents, b'). push_inherents h b' inherents)"

subsection \<open>Sub-blocks\<close>

text \<open>\<open>u64::to_le_bytes\<close>.\<close>

definition to_le_bytes :: "64 word \<Rightarrow> 8 word list" where
  "to_le_bytes w = map (\<lambda>i. ucast (drop_bit (8 * i) w)) [0..<8]"

definition new_payload_id ::
  "('b, 'x, 'v, 'o, 'r, 'tx, 'h, 'hash) host \<Rightarrow> 'hash \<Rightarrow> 64 word \<Rightarrow> 8 word list"
where
  "new_payload_id h hash index = twox_64 h (hash_bytes h hash @ to_le_bytes index)"

text \<open>A payload for the extrinsics of a sub-block, if it has any.\<close>

definition sub_block_payload ::
  "('b, 'x, 'v, 'o, 'r, 'tx, 'h, 'hash) host \<Rightarrow> ('ext, 'hash) proposer \<Rightarrow> 64 word \<Rightarrow> 'hash block_base option
    \<Rightarrow> end_reason \<Rightarrow> 'x list \<Rightarrow> 'h list \<Rightarrow> ('x, 'h, 'hash) payload option"
where
  "sub_block_payload h p index base reason xs hs =
     (if 0 < length xs then
        Some \<lparr>payload_id = new_payload_id h (parent_hash p) index, payload_index = index, payload_base = base,
              payload_diff = \<lparr>diff_extrinsics = xs, diff_hashes = hs\<rparr>, payload_metadata = (reason, length xs)\<rparr>
      else None)"

definition build_sub_block ::
  "('b, 'x, 'v, 'o, 'r, 'tx, 'h, 'hash) host \<Rightarrow> ('ext, 'hash) proposer \<Rightarrow> nat \<Rightarrow> 64 word \<Rightarrow> 64 word \<Rightarrow> 'hash block_base option
    \<Rightarrow> 'b \<Rightarrow> 'r \<Rightarrow> nat \<Rightarrow> (('x, 'h, 'hash) payload option \<times> ('b, 'r, 'x, 'h, 'v) authoring) option"
where
  "build_sub_block h p preconf_deadline block_size_limit index base b r n =
     map_option (\<lambda>(reason, st). (sub_block_payload h p index base reason (extrinsics st) (extrinsics_hashes st), st))
       (apply_extrinsics h p preconf_deadline block_size_limit b r n)"

definition effective_deadline ::
  "('b, 'x, 'v, 'o, 'r, 'tx, 'h, 'hash) host \<Rightarrow> ('ext, 'hash) proposer \<Rightarrow> nat \<Rightarrow> nat \<Rightarrow> nat"
where
  "effective_deadline h p n deadline = min (clock h n + 1000000 * unat (preconf_block_time p)) deadline"

subsection \<open>The authoring loop\<close>

record ('b, 'r, 'x, 'h, 'v, 'hash) session =
  s_builder :: 'b
  s_ready :: 'r
  s_readings :: nat
  sub_block_count :: "64 word"
  s_sent :: "('x, 'h, 'hash) payload list"
  s_messages :: "string list"
  s_reported :: "('h \<times> 'v option) list list"

text \<open>The branches of \<open>select!\<close>: the cancelled token, a received build signal, and the closed channel.\<close>

datatype signal = Cancelled | Build | Closed

text \<open>Sending fails with the error of the channel when its receiver is gone.\<close>

definition send_message ::
  "'o option \<Rightarrow> string \<Rightarrow> string list \<Rightarrow> (('v, 'o) chain_error, string list) result"
where
  "send_message closed message sent = (case closed of None \<Rightarrow> Ok (sent @ [message]) | Some e \<Rightarrow> Err (Application e))"

text \<open>\<open>serde_json::to_string(&payload).unwrap_or_default()\<close>.\<close>

definition message_of :: "('b, 'x, 'v, 'o, 'r, 'tx, 'h, 'hash) host \<Rightarrow> ('x, 'h, 'hash) payload \<Rightarrow> string" where
  "message_of h q = (case serialize h q of Some text \<Rightarrow> text | None \<Rightarrow> [])"

definition author_step ::
  "('b, 'x, 'v, 'o, 'r, 'tx, 'h, 'hash) host \<Rightarrow> ('ext, 'hash) proposer \<Rightarrow> nat \<Rightarrow> 64 word \<Rightarrow> 'o option
    \<Rightarrow> ('b, 'r, 'x, 'h, 'v, 'hash) session \<Rightarrow> (('v, 'o) chain_error, ('b, 'r, 'x, 'h, 'v, 'hash) session) result"
where
  "author_step h p deadline block_size_limit closed s =
     and_then (if sub_block_count s = 0
               then and_then (new_block_base h (parent_hash p) (parent_number p + 1) block_size_limit) (\<lambda>base. Ok (Some base))
               else Ok None) (\<lambda>base_only_if_first_block.
     let preconf_deadline = effective_deadline h p (s_readings s) deadline in
     and_then (case build_sub_block h p preconf_deadline block_size_limit (sub_block_count s) base_only_if_first_block
                 (s_builder s) (s_ready s) (Suc (s_readings s)) of
                 None \<Rightarrow> Diverge | Some built \<Rightarrow> Ok built) (\<lambda>(found, st).
     let s' = s\<lparr>s_builder := builder st, s_ready := ready st, s_readings := readings st, sub_block_count := sub_block_count s + 1,
                s_reported := s_reported s @ [unqueue_invalid st]\<rparr>
     in case found of
          None \<Rightarrow> Ok s'
        | Some sub_payload \<Rightarrow>
            and_then (send_message closed (message_of h sub_payload) (s_messages s)) (\<lambda>messages.
            Ok (s'\<lparr>s_sent := s_sent s @ [sub_payload], s_messages := messages\<rparr>))))"

definition new_session :: "'b \<Rightarrow> 'r \<Rightarrow> nat \<Rightarrow> ('b, 'r, 'x, 'h, 'v, 'hash) session" where
  "new_session b r n = \<lparr>s_builder = b, s_ready = r, s_readings = n, sub_block_count = 0, s_sent = [], s_messages = [],
     s_reported = []\<rparr>"

datatype 's progress = Waiting 's | Finished 's

fun author_loop ::
  "('b, 'x, 'v, 'o, 'r, 'tx, 'h, 'hash) host \<Rightarrow> ('ext, 'hash) proposer \<Rightarrow> nat \<Rightarrow> 64 word \<Rightarrow> 'o option
    \<Rightarrow> signal list \<Rightarrow> ('b, 'r, 'x, 'h, 'v, 'hash) session
    \<Rightarrow> (('v, 'o) chain_error, ('b, 'r, 'x, 'h, 'v, 'hash) session progress) result"
where
  "author_loop h p deadline limit closed [] s = Ok (Waiting s)"
| "author_loop h p deadline limit closed (Build # signals) s =
     and_then (author_step h p deadline limit closed s) (author_loop h p deadline limit closed signals)"
| "author_loop h p deadline limit closed (Cancelled # signals) s = Ok (Finished s)"
| "author_loop h p deadline limit closed (Closed # signals) s = Ok (Finished s)"



subsection \<open>Proposals\<close>

record ('block, 'changes, 'proof) proposal =
  proposal_block :: 'block
  proposal_proof :: 'proof
  proposal_changes :: 'changes

text \<open>\<open>new_builder\<close> builds the block builder, \<open>finish\<close> ends it, \<open>into_proof\<close> is the proof recorder and
  \<open>ready_at\<close> the iterator that the pool returns. The outcome \<^term>\<open>Ok None\<close> says that the loop still waits for a
  signal after the given ones; the code itself always returns a proposal or an error.\<close>

definition propose_with ::
  "('b, 'x, 'v, 'o, 'r, 'tx, 'h, 'hash) host \<Rightarrow> ('ext, 'hash) proposer
    \<Rightarrow> ('hash \<Rightarrow> 32 word \<Rightarrow> 'd \<Rightarrow> (('v, 'o) chain_error, 'b) result) \<Rightarrow> ('b \<Rightarrow> 'i \<Rightarrow> (('v, 'o) chain_error, 'x list \<times> 'b) result)
    \<Rightarrow> ('hash \<Rightarrow> nat \<Rightarrow> 'r) \<Rightarrow> ('b \<Rightarrow> (('v, 'o) chain_error, 'block \<times> 'changes \<times> 'rec) result) \<Rightarrow> ('rec \<Rightarrow> ('o, 'proof) result)
    \<Rightarrow> 'o option \<Rightarrow> signal list \<Rightarrow> 'i \<Rightarrow> 'd \<Rightarrow> nat \<Rightarrow> 64 word option \<Rightarrow> nat
    \<Rightarrow> (('v, 'o) chain_error, ('block, 'changes, 'proof) proposal option) result"
where
  "propose_with h p new_builder create_inherents ready_at finish into_proof closed signals inherent_data inherent_digests
       deadline size_limit n =
     and_then (new_builder (parent_hash p) (parent_number p) inherent_digests) (\<lambda>b.
     and_then (apply_inherents h create_inherents b inherent_data) (\<lambda>b.
     let limit = (case size_limit of Some l \<Rightarrow> l | None \<Rightarrow> default_block_size_limit p);
         timeout = deadline - clock h n
     in
     and_then (author_loop h p deadline limit closed signals (new_session b (ready_at (parent_hash p) timeout) (Suc n)))
       (\<lambda>progress.
     case progress of
       Waiting s \<Rightarrow> Ok None
     | Finished s \<Rightarrow>
         and_then (finish (s_builder s)) (\<lambda>(block, changes, recorded).
         and_then (map_err Application (into_proof recorded)) (\<lambda>recorded_proof.
         Ok (Some \<lparr>proposal_block = block, proposal_proof = recorded_proof, proposal_changes = changes\<rparr>))))))"

text \<open>\<open>Proposer::propose\<close>: a third of the time is left for evaluation and finalization.\<close>

definition propose_deadline :: "nat \<Rightarrow> nat \<Rightarrow> nat" where
  "propose_deadline now max_duration = now + max_duration - max_duration div 3"

definition propose ::
  "('b, 'x, 'v, 'o, 'r, 'tx, 'h, 'hash) host \<Rightarrow> ('ext, 'hash) proposer
    \<Rightarrow> ('hash \<Rightarrow> 32 word \<Rightarrow> 'd \<Rightarrow> (('v, 'o) chain_error, 'b) result) \<Rightarrow> ('b \<Rightarrow> 'i \<Rightarrow> (('v, 'o) chain_error, 'x list \<times> 'b) result)
    \<Rightarrow> ('hash \<Rightarrow> nat \<Rightarrow> 'r) \<Rightarrow> ('b \<Rightarrow> (('v, 'o) chain_error, 'block \<times> 'changes \<times> 'rec) result) \<Rightarrow> ('rec \<Rightarrow> ('o, 'proof) result)
    \<Rightarrow> 'o option \<Rightarrow> signal list \<Rightarrow> 'i \<Rightarrow> 'd \<Rightarrow> nat \<Rightarrow> 64 word option \<Rightarrow> nat
    \<Rightarrow> (('v, 'o) chain_error, ('block, 'changes, 'proof) proposal option) result"
where
  "propose h p new_builder create_inherents ready_at finish into_proof closed signals inherent_data inherent_digests
       max_duration size_limit n =
     propose_with h p new_builder create_inherents ready_at finish into_proof closed signals inherent_data inherent_digests
       (propose_deadline (clock h n) max_duration) size_limit (Suc n)"

text \<open>\<open>ProposerInterface::propose\<close> of the factory. \<open>Environment::init\<close> never fails.\<close>

datatype 'e proposer_error = Proposing 'e

definition factory_propose ::
  "('b, 'x, 'v, 'o, 'r, 'tx, 'h, 'hash) host \<Rightarrow> 'ext factory \<Rightarrow> ('i \<Rightarrow> (('v, 'o) chain_error, 'i) result)
    \<Rightarrow> ('hash \<Rightarrow> 32 word \<Rightarrow> 'd \<Rightarrow> (('v, 'o) chain_error, 'b) result) \<Rightarrow> ('b \<Rightarrow> 'i \<Rightarrow> (('v, 'o) chain_error, 'x list \<times> 'b) result)
    \<Rightarrow> ('hash \<Rightarrow> nat \<Rightarrow> 'r) \<Rightarrow> ('b \<Rightarrow> (('v, 'o) chain_error, 'block \<times> 'changes \<times> 'rec) result) \<Rightarrow> ('rec \<Rightarrow> ('o, 'proof) result)
    \<Rightarrow> 'o option \<Rightarrow> signal list \<Rightarrow> 'hash \<Rightarrow> 32 word \<Rightarrow> 'i \<Rightarrow> 'd \<Rightarrow> nat \<Rightarrow> 64 word option \<Rightarrow> nat
    \<Rightarrow> (('v, 'o) chain_error proposer_error, ('block, 'changes, 'proof) proposal option) result"
where
  "factory_propose h f provide_inherent_data new_builder create_inherents ready_at finish into_proof closed signals
       header_hash header_number other_inherent_data inherent_digests max_duration size_limit n =
     (let p = init_with_now f header_hash header_number in
      and_then (map_err Proposing (provide_inherent_data other_inherent_data)) (\<lambda>inherent_data.
      map_err Proposing (propose h p new_builder create_inherents ready_at finish into_proof closed signals inherent_data
        inherent_digests max_duration size_limit n)))"

subsection \<open>Subscribers\<close>

text \<open>\<open>retain_mut\<close> with a send that is polled once: a send that is not done at once counts as failed.\<close>

definition publish :: "('sub \<Rightarrow> string \<Rightarrow> bool option \<times> 'sub) \<Rightarrow> 'sub list \<Rightarrow> string \<Rightarrow> 'sub list" where
  "publish send subs message =
     map (\<lambda>sub. snd (send sub message)) (filter (\<lambda>sub. fst (send sub message) = Some True) subs)"

definition publish_task :: "('sub \<Rightarrow> string \<Rightarrow> bool option \<times> 'sub) \<Rightarrow> 'sub list \<Rightarrow> string list \<Rightarrow> 'sub list" where
  "publish_task send subs messages = foldl (publish send) subs messages"

definition accept_subscriber :: "('stream \<Rightarrow> 'sub option) \<Rightarrow> 'sub list \<Rightarrow> 'stream \<Rightarrow> 'sub list" where
  "accept_subscriber accept_async subs stream =
     (case accept_async stream of Some ws \<Rightarrow> subs @ [ws] | None \<Rightarrow> subs)"

subsection \<open>Rounds and the loop of a sub-block\<close>

text \<open>The clock moves past the deadline: documented of a monotonic clock.\<close>

definition clock_passes :: "('b, 'x, 'v, 'o, 'r, 'tx, 'h, 'hash) host \<Rightarrow> nat \<Rightarrow> bool" where
  "clock_passes h deadline \<longleftrightarrow> (\<exists>k. \<forall>n \<ge> k. deadline < clock h n)"

text \<open>What a builder promises: a successful push appends the extrinsic to the body of the block, a failed one
  leaves the body.\<close>

definition builder_spec :: "('b, 'x, 'v, 'o, 'r, 'tx, 'h, 'hash) host \<Rightarrow> ('b \<Rightarrow> 'x list) \<Rightarrow> bool" where
  "builder_spec h body \<longleftrightarrow>
     (\<forall>b x. body (snd (push h b x)) = (case fst (push h b x) of Inr _ \<Rightarrow> body b @ [x] | Inl _ \<Rightarrow> body b))"

text \<open>The extrinsics that were pushed between two states, with their hashes.\<close>

definition pushed_between ::
  "('b, 'x, 'v, 'o, 'r, 'tx, 'h, 'hash) host \<Rightarrow> ('b \<Rightarrow> 'x list) \<Rightarrow> ('b, 'r, 'x, 'h, 'v) authoring
    \<Rightarrow> ('b, 'r, 'x, 'h, 'v) authoring \<Rightarrow> bool"
where
  "pushed_between h body st st' \<longleftrightarrow> (\<exists>new.
     extrinsics st' = extrinsics st @ map (tx_data h) new
     \<and> extrinsics_hashes st' = extrinsics_hashes st @ map (tx_hash h) new
     \<and> (builder_spec h body \<longrightarrow> body (builder st') = body (builder st) @ map (tx_data h) new))"

lemma pushed_between_trans:
  assumes "pushed_between h body st1 st2" "pushed_between h body st2 st3"
  shows "pushed_between h body st1 st3"
proof -
  obtain xs ys where
    "extrinsics st2 = extrinsics st1 @ map (tx_data h) xs" "extrinsics st3 = extrinsics st2 @ map (tx_data h) ys"
    "extrinsics_hashes st2 = extrinsics_hashes st1 @ map (tx_hash h) xs"
    "extrinsics_hashes st3 = extrinsics_hashes st2 @ map (tx_hash h) ys"
    "builder_spec h body \<longrightarrow> body (builder st2) = body (builder st1) @ map (tx_data h) xs"
    "builder_spec h body \<longrightarrow> body (builder st3) = body (builder st2) @ map (tx_data h) ys"
    using assms unfolding pushed_between_def by blast
  then show ?thesis
    unfolding pushed_between_def by (intro exI [of _ "xs @ ys"]) simp
qed

lemma apply_round_effect:
  assumes "apply_round h ip soft deadline limit st = (found, st')"
  shows "(found = None \<longrightarrow> readings st < readings st' \<and> clock h (readings st) \<le> deadline)
    \<and> pushed_between h body st st'
    \<and> (skipped st \<le> MAX_SKIPPED_TRANSACTIONS \<longrightarrow> skipped st' \<le> MAX_SKIPPED_TRANSACTIONS)
    \<and> (found = Some HitDeadline \<longrightarrow> deadline < clock h (readings st' - 1))
    \<and> (found = Some HitBlockSizeLimit \<or> found = Some HitBlockWeightLimit \<longrightarrow>
        MAX_SKIPPED_TRANSACTIONS \<le> skipped st' \<and> soft \<le> clock h (readings st' - 1))"
    (is "_ \<and> ?new \<and> _")
proof (cases "next_ready h (ready st)")
  case (Pair offered r)
  show ?thesis
  proof (cases offered)
    case None
    then show ?thesis using assms Pair by (auto simp: apply_round_def pushed_between_def)
  next
    case (Some tx)
    obtain pushed b where push: "push h (builder st) (tx_data h tx) = (pushed, b)"
      by (cases "push h (builder st) (tx_data h tx)")
    then have body: "body b = (case pushed of Inr _ \<Rightarrow> body (builder st) @ [tx_data h tx] | Inl _ \<Rightarrow> body (builder st))"
      if "builder_spec h body"
      using that unfolding builder_spec_def by (metis fst_conv snd_conv)
    have new: ?new if "extrinsics st' = extrinsics st @ map (tx_data h) new"
      "extrinsics_hashes st' = extrinsics_hashes st @ map (tx_hash h) new"
      "builder_spec h body \<Longrightarrow> body (builder st') = body (builder st) @ map (tx_data h) new" for new
      using that unfolding pushed_between_def by blast
    show ?thesis
    proof (cases pushed)
      case (Inl e)
      have ?new
        by (rule new [of "[]"]) (use assms Pair Some push body Inl in
            \<open>auto simp: apply_round_def skip_def Let_def split: if_splits\<close>)
      then show ?thesis
        using assms Pair Some push Inl
        by (auto simp: apply_round_def skip_def Let_def split: if_splits)
    next
      case (Inr u)
      have ?new
        using assms Pair Some push body Inr new [of "[]"] new [of "[tx]"]
        by (auto simp: apply_round_def skip_def Let_def split: if_splits)
      then show ?thesis
        using assms Pair Some push Inr
        by (auto simp: apply_round_def skip_def Let_def split: if_splits)
    qed
  qed
qed

lemmas apply_round_reads = apply_round_effect [THEN conjunct1]
  and apply_round_new = apply_round_effect [THEN conjunct2, THEN conjunct1]
  and apply_round_reason = apply_round_effect [THEN conjunct2, THEN conjunct2]

lemma apply_loop_ends:
  assumes "\<forall>n \<ge> k. deadline < clock h n"
  shows "\<exists>reason st'. apply_loop h ip soft deadline limit st = Some (reason, st')"
proof (induction "k - readings st" arbitrary: st rule: less_induct)
  case less
  obtain found st1 where round: "apply_round h ip soft deadline limit st = (found, st1)"
    by (cases "apply_round h ip soft deadline limit st")
  show ?case
  proof (cases found)
    case None
    then have reads: "readings st < readings st1" "clock h (readings st) \<le> deadline"
      using apply_round_reads [OF round] by simp_all
    then have "readings st < k" using assms by (meson leD not_le)
    then have "k - readings st1 < k - readings st" using reads(1) by simp
    from less [OF this] show ?thesis using round None by (simp add: apply_loop.simps)
  qed (use round in \<open>simp add: apply_loop.simps\<close>)
qed

lemma apply_loop_effect:
  assumes "apply_loop h ip soft deadline limit st = Some (reason, st')" "skipped st \<le> MAX_SKIPPED_TRANSACTIONS"
  shows "pushed_between h body st st' \<and> skipped st' \<le> MAX_SKIPPED_TRANSACTIONS
    \<and> (reason = HitDeadline \<longrightarrow> deadline < clock h (readings st' - 1))
    \<and> (reason = HitBlockSizeLimit \<or> reason = HitBlockWeightLimit \<longrightarrow>
        MAX_SKIPPED_TRANSACTIONS \<le> skipped st' \<and> soft \<le> clock h (readings st' - 1))"
proof -
  have "skipped st \<le> MAX_SKIPPED_TRANSACTIONS \<longrightarrow> pushed_between h body st (snd y) \<and> skipped (snd y) \<le> MAX_SKIPPED_TRANSACTIONS
    \<and> (fst y = HitDeadline \<longrightarrow> deadline < clock h (readings (snd y) - 1))
    \<and> (fst y = HitBlockSizeLimit \<or> fst y = HitBlockWeightLimit \<longrightarrow>
        MAX_SKIPPED_TRANSACTIONS \<le> skipped (snd y) \<and> soft \<le> clock h (readings (snd y) - 1))"
    if "apply_loop h ip soft deadline limit st = Some y" for y
    using that
  proof (induction rule: apply_loop.raw_induct [rotated 1, consumes 1, case_names step])
    case (step loop h ip soft deadline limit st y)
    obtain found st1 where round: "apply_round h ip soft deadline limit st = (found, st1)"
      by (cases "apply_round h ip soft deadline limit st")
    note new = apply_round_new [OF round, of body] and reason = apply_round_reason [OF round]
    show ?case
    proof (cases found)
      case (Some r)
      then have "y = (r, st1)" using step(2) round by simp
      with new reason Some show ?thesis by auto
    next
      case None
      then have "loop h ip soft deadline limit st1 = Some y" using step(2) round by simp
      from step(1) [OF this] new reason show ?thesis
        using pushed_between_trans by blast
    qed
  qed
  from this [OF assms(1)] assms(2) show ?thesis by simp
qed

lemma apply_extrinsics_effect:
  assumes "apply_extrinsics h p deadline limit b r n = Some (reason, st)"
  shows "\<exists>new. extrinsics st = map (tx_data h) new \<and> extrinsics_hashes st = map (tx_hash h) new
      \<and> (builder_spec h body \<longrightarrow> body (builder st) = body b @ extrinsics st)"
    and "skipped st \<le> MAX_SKIPPED_TRANSACTIONS" and "reason = HitDeadline \<Longrightarrow> deadline < clock h (readings st - 1)"
    and "reason = HitBlockSizeLimit \<or> reason = HitBlockWeightLimit \<Longrightarrow> MAX_SKIPPED_TRANSACTIONS \<le> skipped st
      \<and> clock h n + 1000 * unat (mul_floor h (soft_deadline_percent p) (saturated_micros (deadline - clock h n)))
          \<le> clock h (readings st - 1)"
proof -
  note loop = apply_loop_effect [OF assms [unfolded apply_extrinsics_def Let_def], of body]
  show "\<exists>new. extrinsics st = map (tx_data h) new \<and> extrinsics_hashes st = map (tx_hash h) new
      \<and> (builder_spec h body \<longrightarrow> body (builder st) = body b @ extrinsics st)"
    using loop by (auto simp: pushed_between_def)
  show "skipped st \<le> MAX_SKIPPED_TRANSACTIONS" and "reason = HitDeadline \<Longrightarrow> deadline < clock h (readings st - 1)"
    and "reason = HitBlockSizeLimit \<or> reason = HitBlockWeightLimit \<Longrightarrow> MAX_SKIPPED_TRANSACTIONS \<le> skipped st
      \<and> clock h n + 1000 * unat (mul_floor h (soft_deadline_percent p) (saturated_micros (deadline - clock h n)))
          \<le> clock h (readings st - 1)"
    using loop by simp_all
qed

lemma apply_extrinsics_ends:
  assumes "clock_passes h deadline"
  shows "\<exists>reason st. apply_extrinsics h p deadline limit b r n = Some (reason, st)"
proof -
  from assms obtain k where "\<forall>n \<ge> k. deadline < clock h n" unfolding clock_passes_def by blast
  from apply_loop_ends [OF this] show ?thesis by (simp add: apply_extrinsics_def Let_def)
qed

subsection \<open>Sessions\<close>

lemma author_step_Ok:
  assumes "author_step h p deadline limit closed s = Ok s'"
  obtains base reason st where
    "apply_extrinsics h p (effective_deadline h p (s_readings s) deadline) limit (s_builder s) (s_ready s)
       (Suc (s_readings s)) = Some (reason, st)"
    "base = None \<longleftrightarrow> sub_block_count s \<noteq> 0" "s_builder s' = builder st" "sub_block_count s' = sub_block_count s + 1"
    "s_sent s' = s_sent s @ (case sub_block_payload h p (sub_block_count s) base reason (extrinsics st) (extrinsics_hashes st) of
       None \<Rightarrow> [] | Some q \<Rightarrow> [q])"
    "s_messages s' = s_messages s @ map (message_of h) (drop (length (s_sent s)) (s_sent s'))"
proof -
  obtain base where base: "(if sub_block_count s = 0
      then and_then (new_block_base h (parent_hash p) (parent_number p + 1) limit) (\<lambda>base. Ok (Some base)) else Ok None) = Ok base"
    using assms unfolding author_step_def and_then_eq_Ok by blast
  then have first: "base = None \<longleftrightarrow> sub_block_count s \<noteq> 0"
    by (auto simp: result_iffs split: if_splits)
  obtain reason st where built: "apply_extrinsics h p (effective_deadline h p (s_readings s) deadline) limit (s_builder s)
      (s_ready s) (Suc (s_readings s)) = Some (reason, st)"
    using assms unfolding author_step_def base
    by (auto simp: build_sub_block_def Let_def result_iffs split: option.splits)
  show ?thesis
    by (rule that [OF built first]) (use assms built in \<open>unfold author_step_def base\<close>,
      auto simp: build_sub_block_def send_message_def Let_def result_iffs split: option.splits)
qed

fun session_of :: "'s progress \<Rightarrow> 's" where
  "session_of (Waiting s) = s"
| "session_of (Finished s) = s"

lemma author_loop_rule:
  assumes "author_loop h p deadline limit closed signals s = Ok progress" "I n s"
    and "\<And>n s s'. I n s \<Longrightarrow> author_step h p deadline limit closed s = Ok s' \<Longrightarrow> I (Suc n) s'"
  shows "\<exists>m \<le> n + length signals. I m (session_of progress)"
  using assms(1,2)
proof (induction signals arbitrary: n s)
  case Nil
  then show ?case by auto
next
  case (Cons signal signals)
  show ?case
  proof (cases signal)
    case Build
    with Cons.prems(1) obtain s1 where s1: "author_step h p deadline limit closed s = Ok s1"
      "author_loop h p deadline limit closed signals s1 = Ok progress"
      by (auto simp: result_iffs)
    from Cons.IH [OF s1(2) assms(3) [OF Cons.prems(2) s1(1)]] show ?thesis by simp
  qed (use Cons.prems in \<open>auto intro: exI [of _ n]\<close>)
qed

subsection \<open>Payload ids and subscribers\<close>

lemma to_le_bytes_inj: "to_le_bytes v = to_le_bytes w \<longleftrightarrow> v = w"
proof
  assume same: "to_le_bytes v = to_le_bytes w"
  show "v = w"
  proof (rule bit_word_eqI)
    fix n assume "n < LENGTH(64)"
    then have "n div 8 < 8" by simp
    with same have byte: "ucast (drop_bit (8 * (n div 8)) v) = (ucast (drop_bit (8 * (n div 8)) w) :: 8 word)"
      by (auto simp: to_le_bytes_def dest!: map_eq_conv [THEN iffD1])
    have "bit v (8 * (n div 8) + n mod 8) = bit w (8 * (n div 8) + n mod 8)"
      using arg_cong [OF byte, of "\<lambda>u. bit u (n mod 8)"] by (simp add: bit_simps)
    then show "bit v n = bit w n" by simp
  qed
qed simp

lemma publish_task_keeps:
  assumes "\<And>sub message. snd (send sub message) = sub"
  shows "publish_task send subs messages = filter (\<lambda>sub. \<forall>message \<in> set messages. fst (send sub message) = Some True) subs"
  unfolding publish_task_def
  by (induction messages arbitrary: subs) (auto simp: publish_def assms intro: filter_cong)

subsection \<open>A table of transactions as a host\<close>

text \<open>A block is its list of extrinsics, the iterator a list of transactions, and the extrinsic 0 is invalid.\<close>

definition list_host :: "(nat \<Rightarrow> nat) \<Rightarrow> (nat list, nat, bool, unit, nat list, nat, nat, nat) host" where
  "list_host clock_of =
     \<lparr>push = (\<lambda>b x. if x = 0 then (Inl (ValidityFailed False), b) else (Inr (), b @ [x])),
      estimate_block_size = (\<lambda>b _. of_nat (length b)), encoded_size = (\<lambda>_. 1), exhausted_resources = id,
      was_mandatory = (\<lambda>_. False),
      next_ready = (\<lambda>r. case r of [] \<Rightarrow> (None, []) | x # xs \<Rightarrow> (Some x, xs)), report_invalid = (\<lambda>r _. r),
      tx_data = id, tx_hash = (\<lambda>x. x + 100), clock = clock_of, epoch_millis = Some 1700000000000,
      mul_floor = (\<lambda>percent x. of_nat (percent * unat x div 100)), hash_bytes = (\<lambda>_. [1]), twox_64 = take 8,
      serialize = (\<lambda>_. Some ''payload'')\<rparr>"

definition list_proposer :: "(unit, nat) proposer" where
  "list_proposer = init_with_now (with_proof_recording 4 () 6000 200) 7 41"

lemma list_host_spec: "builder_spec (list_host c) id"
  by (simp add: builder_spec_def list_host_def)

lemma list_host_clock: "clock_passes (list_host (\<lambda>n. 10 * n)) deadline"
  unfolding clock_passes_def by (intro exI [of _ "Suc deadline"]) (simp add: list_host_def)

subsection \<open>Properties\<close>

text \<open>C20. Building a sub-block ends as soon as the clock passes its deadline, whatever the pool offers. The
  hashes it returns are those of its extrinsics, in order. It ends for the deadline only after it, and for a
  full block only after eight skipped transactions and the soft deadline.\<close>

theorem sub_block_ends:
  assumes "clock_passes h deadline"
  shows "\<exists>reason st. apply_extrinsics h p deadline limit b r n = Some (reason, st)
    \<and> (\<exists>txs. extrinsics st = map (tx_data h) txs \<and> extrinsics_hashes st = map (tx_hash h) txs)
    \<and> (reason = HitDeadline \<longrightarrow> deadline < clock h (readings st - 1))
    \<and> (reason = HitBlockSizeLimit \<or> reason = HitBlockWeightLimit \<longrightarrow> skipped st = MAX_SKIPPED_TRANSACTIONS
        \<and> clock h n + 1000 * unat (mul_floor h (soft_deadline_percent p) (saturated_micros (deadline - clock h n)))
          \<le> clock h (readings st - 1))"
proof -
  obtain reason st where ends: "apply_extrinsics h p deadline limit b r n = Some (reason, st)"
    using apply_extrinsics_ends [OF assms] by blast
  note effect = apply_extrinsics_effect [OF ends]
  show ?thesis
    by (rule exI [of _ reason], rule exI [of _ st]) (use ends effect in \<open>auto intro: le_antisym\<close>)
qed

theorem sub_block_ends_witness:
  "\<exists>reason st. apply_extrinsics (list_host (\<lambda>n. 10 * n)) list_proposer 100 4 [] [5, 0, 6] 0 = Some (reason, st)"
  using sub_block_ends [OF list_host_clock, where deadline = 100 and p = list_proposer and limit = 4 and b = "[]"
      and r = "[5, 0, 6]" and n = 0] by blast

text \<open>C12. Preconfirmations are true: the body of the block is what the inherents left followed by the
  extrinsics of the sub-blocks that were sent, in order, and every message is the text of its payload, which
  lists at least one extrinsic and exactly the hashes of its extrinsics.\<close>

theorem preconfirmations_match_block:
  assumes "builder_spec h body" and "author_loop h p deadline limit closed signals (new_session b r n) = Ok progress"
  shows "body (s_builder (session_of progress))
      = body b @ concat (map (\<lambda>q. diff_extrinsics (payload_diff q)) (s_sent (session_of progress)))
    \<and> s_messages (session_of progress) = map (message_of h) (s_sent (session_of progress))
    \<and> list_all (\<lambda>q. \<exists>txs. txs \<noteq> [] \<and> diff_extrinsics (payload_diff q) = map (tx_data h) txs
        \<and> diff_hashes (payload_diff q) = map (tx_hash h) txs) (s_sent (session_of progress))"
proof -
  let ?I = "\<lambda>(m::nat) s. body (s_builder s) = body b @ concat (map (\<lambda>q. diff_extrinsics (payload_diff q)) (s_sent s))
    \<and> s_messages s = map (message_of h) (s_sent s)
    \<and> list_all (\<lambda>q. \<exists>txs. txs \<noteq> [] \<and> diff_extrinsics (payload_diff q) = map (tx_data h) txs
        \<and> diff_hashes (payload_diff q) = map (tx_hash h) txs) (s_sent s)"
  have start: "?I 0 (new_session b r n)" by (simp add: new_session_def)
  have step: "?I (Suc m) s'" if inv: "?I m s" and step: "author_step h p deadline limit closed s = Ok s'" for m s s'
  proof -
    from step obtain base reason st where st: "apply_extrinsics h p (effective_deadline h p (s_readings s) deadline) limit
        (s_builder s) (s_ready s) (Suc (s_readings s)) = Some (reason, st)" "s_builder s' = builder st"
      "s_sent s' = s_sent s @ (case sub_block_payload h p (sub_block_count s) base reason (extrinsics st)
         (extrinsics_hashes st) of None \<Rightarrow> [] | Some q \<Rightarrow> [q])"
      "s_messages s' = s_messages s @ map (message_of h) (drop (length (s_sent s)) (s_sent s'))"
      by (rule author_step_Ok)
    obtain new where new: "extrinsics st = map (tx_data h) new" "extrinsics_hashes st = map (tx_hash h) new"
      "body (builder st) = body (s_builder s) @ extrinsics st"
      using apply_extrinsics_effect(1) [OF st(1), of body] assms(1) by blast
    show ?thesis
      using inv st(2-4) new by (auto simp: sub_block_payload_def)
  qed
  have "\<exists>m \<le> 0 + length signals. ?I m (session_of progress)"
    by (rule author_loop_rule [where I = ?I, OF assms(2) start]) (rule step)
  then show ?thesis by blast
qed

theorem preconfirmations_match_block_witness:
  "\<exists>progress. author_loop (list_host (\<lambda>n. 10 * n)) list_proposer 100 4 None [Build, Cancelled] (new_session [9] [5, 0, 6] 0)
      = Ok progress
    \<and> s_builder (session_of progress)
      = [9] @ concat (map (\<lambda>q. diff_extrinsics (payload_diff q)) (s_sent (session_of progress)))"
proof -
  let ?run = "author_loop (list_host (\<lambda>n. 10 * n)) list_proposer 100 4 None [Build, Cancelled] (new_session [9] [5, 0, 6] 0)"
  have "case ?run of Ok _ \<Rightarrow> True | _ \<Rightarrow> False" by code_simp
  then obtain progress where run: "?run = Ok progress" by (simp split: result.splits del: author_loop.simps)
  from preconfirmations_match_block [OF list_host_spec run] show ?thesis
    by (intro exI [of _ progress] conjI run) simp
qed

text \<open>C21. The indices of the payloads of a block increase, and a payload carries the base of the block exactly
  when its index is 0.\<close>

theorem preconf_indices_and_base:
  assumes "author_loop h p deadline limit closed signals (new_session b r n) = Ok progress" and "length signals < 2 ^ 64"
  shows "sorted_wrt (<) (map payload_index (s_sent (session_of progress)))
    \<and> list_all (\<lambda>q. payload_base q = None \<longleftrightarrow> payload_index q \<noteq> 0) (s_sent (session_of progress))"
proof -
  let ?I = "\<lambda>m s. m < 2 ^ 64 \<longrightarrow> unat (sub_block_count s) = m \<and> sorted_wrt (<) (map payload_index (s_sent s))
    \<and> list_all (\<lambda>q. payload_index q < sub_block_count s \<and> (payload_base q = None \<longleftrightarrow> payload_index q \<noteq> 0)) (s_sent s)"
  have start: "?I 0 (new_session b r n)" by (simp add: new_session_def)
  have step: "?I (Suc m) s'" if inv: "?I m s" and step: "author_step h p deadline limit closed s = Ok s'" for m s s'
  proof
    assume m: "Suc m < 2 ^ 64"
    from step obtain base reason st where "apply_extrinsics h p (effective_deadline h p (s_readings s) deadline) limit
        (s_builder s) (s_ready s) (Suc (s_readings s)) = Some (reason, st)" and st: "base = None \<longleftrightarrow> sub_block_count s \<noteq> 0" "sub_block_count s' = sub_block_count s + 1"
      "s_sent s' = s_sent s @ (case sub_block_payload h p (sub_block_count s) base reason (extrinsics st)
         (extrinsics_hashes st) of None \<Rightarrow> [] | Some q \<Rightarrow> [q])"
      by (rule author_step_Ok)
    have count: "unat (sub_block_count s') = Suc m"
      using inv m unfolding st(2) by (simp add: unat_plus_if_size word_size)
    then have less: "sub_block_count s < sub_block_count s'" using inv m by (simp add: word_less_nat_alt)
    have old: "sorted_wrt (<) (map payload_index (s_sent s))" "\<forall>q \<in> set (s_sent s). payload_index q < sub_block_count s
        \<and> (payload_base q = None \<longleftrightarrow> payload_index q \<noteq> 0)"
      using inv m by (simp_all add: list_all_iff)
    show "unat (sub_block_count s') = Suc m \<and> sorted_wrt (<) (map payload_index (s_sent s'))
      \<and> list_all (\<lambda>q. payload_index q < sub_block_count s' \<and> (payload_base q = None \<longleftrightarrow> payload_index q \<noteq> 0)) (s_sent s')"
    proof (cases "0 < length (extrinsics st)")
      case True
      then obtain q where "s_sent s' = s_sent s @ [q]" "payload_index q = sub_block_count s" "payload_base q = base"
        using st(3) by (simp add: sub_block_payload_def)
      with old st(1) count less less_trans [OF _ less] show ?thesis
        by (simp add: sorted_wrt_append list_all_iff)
    next
      case False
      then have "s_sent s' = s_sent s" using st(3) by (simp add: sub_block_payload_def)
      with old count less_trans [OF _ less] show ?thesis by (simp add: list_all_iff)
    qed
  qed
  have "\<exists>m \<le> 0 + length signals. ?I m (session_of progress)"
    by (rule author_loop_rule [where I = ?I, OF assms(1) start]) (rule step)
  then obtain m where "m \<le> length signals" "?I m (session_of progress)" by (auto simp only: add_0)
  moreover from this(1) assms(2) have "m < 2 ^ 64" by (rule le_less_trans)
  ultimately have "?I m (session_of progress)" "m < 2 ^ 64" by blast+
  then show ?thesis by (simp add: list_all_iff)
qed

theorem preconf_indices_and_base_witness:
  "\<exists>progress. author_loop (list_host (\<lambda>n. 10 * n)) list_proposer 100 4 None [Build, Build, Cancelled] (new_session [9] [5, 0, 6] 0)
      = Ok progress
    \<and> list_all (\<lambda>q. payload_base q = None \<longleftrightarrow> payload_index q \<noteq> 0) (s_sent (session_of progress))"
proof -
  let ?signals = "[Build, Build, Cancelled]"
  let ?run = "author_loop (list_host (\<lambda>n. 10 * n)) list_proposer 100 4 None ?signals (new_session [9] [5, 0, 6] 0)"
  have "case ?run of Ok _ \<Rightarrow> True | _ \<Rightarrow> False" by code_simp
  then obtain progress where run: "?run = Ok progress" by (simp split: result.splits del: author_loop.simps)
  have "length ?signals < 2 ^ 64" by simp
  from preconf_indices_and_base [OF run this] show ?thesis
    by (intro exI [of _ progress] conjI run) simp
qed

text \<open>When the time of the first sub-block is over before its first transaction, that transaction is lost to
  the block and no payload of the block has a base: here 5 is taken from the pool but not pushed, and the
  payload of 7 has index 1.\<close>

theorem late_first_sub_block:
  "(case author_loop (list_host (\<lambda>n. if n < 2 then 0 else 300000000)) list_proposer 1000000000 4 None [Build, Build, Cancelled]
       (new_session [] [5, 7] 0) of
      Ok (Finished s) \<Rightarrow> Some (s_builder s, map (\<lambda>q. (payload_index q, payload_base q)) (s_sent s))
    | _ \<Rightarrow> None) = Some ([7], [(1, None)])"
  by code_simp



lemma author_step_returns:
  assumes "clock_passes h deadline" "epoch_millis h \<noteq> None"
  shows "\<exists>s'. author_step h p deadline limit None s = Ok s'"
proof -
  have "clock_passes h (effective_deadline h p (s_readings s) deadline)"
    using assms(1) unfolding clock_passes_def effective_deadline_def by (meson min_less_iff_conj min.strict_coboundedI2)
  from apply_extrinsics_ends [OF this, of p limit "s_builder s" "s_ready s" "Suc (s_readings s)"] assms(2)
  show ?thesis
    by (auto simp: author_step_def new_block_base_def build_sub_block_def send_message_def Let_def
        split: option.splits)
qed

lemma author_loop_returns:
  assumes "clock_passes h deadline" "epoch_millis h \<noteq> None"
  shows "\<exists>s'. author_loop h p deadline limit None (replicate k Build @ Cancelled # signals) s = Ok (Finished s')"
proof (induction k arbitrary: s)
  case (Suc k)
  obtain s1 where "author_step h p deadline limit None s = Ok s1" using author_step_returns [OF assms] by blast
  with Suc show ?case by simp
qed simp

text \<open>C13. A proposal is returned after the cancellation, however many sub-blocks were built before it, when the
  clock passes the deadline, the publisher is alive and the builder accepts the inherents and can be finished.\<close>

theorem propose_returns:
  assumes "clock_passes h (propose_deadline (clock h n) max_duration)" and "epoch_millis h \<noteq> None"
    and "new_builder (parent_hash p) (parent_number p) inherent_digests = Ok b0"
    and "apply_inherents h create_inherents b0 inherent_data = Ok b"
    and "\<And>b. \<exists>block changes recorded. finish b = Ok (block, changes, recorded)"
    and "\<And>recorded. \<exists>recorded_proof. into_proof recorded = Ok recorded_proof"
  shows "\<exists>proposal. propose h p new_builder create_inherents ready_at finish into_proof None
    (replicate k Build @ Cancelled # signals) inherent_data inherent_digests max_duration size_limit n = Ok (Some proposal)"
proof -
  let ?deadline = "propose_deadline (clock h n) max_duration"
  let ?limit = "case size_limit of Some l \<Rightarrow> l | None \<Rightarrow> default_block_size_limit p"
  obtain s' where loop: "author_loop h p ?deadline ?limit None (replicate k Build @ Cancelled # signals)
      (new_session b (ready_at (parent_hash p) (?deadline - clock h (Suc n))) (Suc (Suc n))) = Ok (Finished s')"
    using author_loop_returns [OF assms(1,2)] by blast
  obtain block changes recorded recorded_proof where "finish (s_builder s') = Ok (block, changes, recorded)" "into_proof recorded = Ok recorded_proof"
    using assms(5,6) by meson
  with loop assms(3,4) show ?thesis
    by (simp add: propose_def propose_with_def Let_def)
qed

theorem propose_returns_witness:
  "\<exists>proposal. propose (list_host (\<lambda>n. 10 * n)) list_proposer (\<lambda>_ _ _. Ok []) (\<lambda>b _. Ok ([9], b)) (\<lambda>_ _. [5, 0, 6])
     (\<lambda>b. Ok (b, (), ())) Ok None (replicate 2 Build @ [Cancelled]) () () 300 None 0 = Ok (Some proposal)"
proof (rule propose_returns [OF list_host_clock])
  show "apply_inherents (list_host (\<lambda>n. 10 * n)) (\<lambda>b _. Ok ([9], b)) [] () = Ok [9]"
    by (simp add: apply_inherents_def list_host_def)
qed (simp_all add: list_host_def)

end
