(* ===== verification/Node.thy ===== *)
theory Node
  imports RuntimeConfig Preconf
begin

text \<open>
  The node around the runtime: chain specifications (\<open>client/service/src/chain_spec.rs\<close>), their choice and the
  configuration of the relay chain part of the command line (\<open>client/cli/src/command.rs\<close>,
  \<open>client/cli/src/lib.rs\<close>), and how the service configures block authoring
  (\<open>client/service/src/lib.rs\<close>). Keys, the parser of command lines and the loader of JSON files are of other
  crates: arguments of the definitions.
\<close>

subsection \<open>Chain specifications\<close>

record ('acc, 'key) key_scheme =
  pair_from_string :: "string \<Rightarrow> 'key option"
  into_account :: "'key \<Rightarrow> 'acc"

definition get_from_seed :: "('acc, 'key) key_scheme \<Rightarrow> string \<Rightarrow> ('e, 'key) result" where
  "get_from_seed S seed = (case pair_from_string S (''//'' @ seed) of Some key \<Rightarrow> Ok key | None \<Rightarrow> Panic)"

definition get_collator_keys_from_seed :: "('acc, 'key) key_scheme \<Rightarrow> string \<Rightarrow> ('e, 'key) result" where
  "get_collator_keys_from_seed S seed = get_from_seed S seed"

definition get_account_id_from_seed :: "('acc, 'key) key_scheme \<Rightarrow> string \<Rightarrow> ('e, 'acc) result" where
  "get_account_id_from_seed S seed = and_then (get_from_seed S seed) (\<lambda>key. Ok (into_account S key))"

record extensions =
  relay_chain :: string
  para_id :: "32 word"

record 'key session_keys =
  aura :: 'key

definition template_session_keys :: "'key \<Rightarrow> 'key session_keys" where
  "template_session_keys key = \<lparr>aura = key\<rparr>"

text \<open>The JSON object of \<open>testnet_genesis\<close>.\<close>

record ('acc, 'key) genesis =
  genesis_balances :: "('acc \<times> 64 word) list"
  parachain_id :: "32 word"
  invulnerables :: "'acc list"
  candidacy_bond :: amount
  genesis_session_keys :: "('acc \<times> 'acc \<times> 'key session_keys) list"
  safe_xcm_version :: "32 word option"
  sudo_key :: "'acc option"

definition testnet_genesis ::
  "32 word \<Rightarrow> ('acc \<times> 'key) list \<Rightarrow> 'acc list \<Rightarrow> 'acc \<Rightarrow> 32 word \<Rightarrow> ('acc, 'key) genesis"
where
  "testnet_genesis safe_version invulnerable_collators endowed_accounts root_account i =
     \<lparr>genesis_balances = map (\<lambda>k. (k, push_bit 60 1)) endowed_accounts,
      parachain_id = i,
      invulnerables = map (\<lambda>(acc, _). acc) invulnerable_collators,
      candidacy_bond = EXISTENTIAL_DEPOSIT * 16,
      genesis_session_keys = map (\<lambda>(acc, key). (acc, acc, template_session_keys key)) invulnerable_collators,
      safe_xcm_version = Some safe_version,
      sudo_key = Some root_account\<rparr>"

datatype chain_type = Development | Local

datatype property_value = Text string | Number nat

record ('acc, 'key) chain_spec =
  spec_extensions :: extensions
  spec_name :: string
  spec_id :: string
  spec_chain_type :: chain_type
  spec_genesis :: "('acc, 'key) genesis"
  spec_protocol_id :: "string option"
  spec_properties :: "(string \<times> property_value) list option"

text \<open>The accounts that both specifications endow; their collators are the first two.\<close>

definition endowed_seeds :: "string list" where
  "endowed_seeds = [''Alice'', ''Bob'', ''Charlie'', ''Dave'', ''Eve'', ''Ferdie'', ''Alice//stash'', ''Bob//stash'',
     ''Charlie//stash'', ''Dave//stash'', ''Eve//stash'', ''Ferdie//stash'']"

fun all_results :: "('a \<Rightarrow> ('e, 'b) result) \<Rightarrow> 'a list \<Rightarrow> ('e, 'b list) result" where
  "all_results f [] = Ok []"
| "all_results f (x # xs) = and_then (f x) (\<lambda>y. and_then (all_results f xs) (\<lambda>ys. Ok (y # ys)))"

definition collator_of_seed :: "('acc, 'key) key_scheme \<Rightarrow> string \<Rightarrow> ('e, 'acc \<times> 'key) result" where
  "collator_of_seed S seed =
     and_then (get_account_id_from_seed S seed) (\<lambda>acc.
     and_then (get_collator_keys_from_seed S seed) (\<lambda>key. Ok (acc, key)))"

text \<open>The argument of \<open>with_genesis_config_patch\<close> in both functions.\<close>

definition seeded_genesis :: "32 word \<Rightarrow> ('acc, 'key) key_scheme \<Rightarrow> ('e, ('acc, 'key) genesis) result" where
  "seeded_genesis safe_version S =
     and_then (all_results (collator_of_seed S) [''Alice'', ''Bob'']) (\<lambda>collators.
     and_then (all_results (get_account_id_from_seed S) endowed_seeds) (\<lambda>endowed.
     and_then (get_account_id_from_seed S ''Alice'') (\<lambda>root_account.
     Ok (testnet_genesis safe_version collators endowed root_account 1000))))"

definition development_config :: "bool \<Rightarrow> 32 word \<Rightarrow> ('acc, 'key) key_scheme \<Rightarrow> ('e, ('acc, 'key) chain_spec) result" where
  "development_config wasm_binary safe_version S =
     (if \<not> wasm_binary then Panic
      else and_then (seeded_genesis safe_version S) (\<lambda>genesis.
        Ok \<lparr>spec_extensions = \<lparr>relay_chain = ''rococo-local'', para_id = 1000\<rparr>, spec_name = ''Development'', spec_id = ''dev'',
            spec_chain_type = Development, spec_genesis = genesis, spec_protocol_id = None, spec_properties = None\<rparr>))"

definition local_testnet_config :: "bool \<Rightarrow> 32 word \<Rightarrow> ('acc, 'key) key_scheme \<Rightarrow> ('e, ('acc, 'key) chain_spec) result" where
  "local_testnet_config wasm_binary safe_version S =
     (if \<not> wasm_binary then Panic
      else and_then (seeded_genesis safe_version S) (\<lambda>genesis.
        Ok \<lparr>spec_extensions = \<lparr>relay_chain = ''rococo-local'', para_id = 1000\<rparr>, spec_name = ''Local Warp(x) Testnet'',
            spec_id = ''local_warpx_testnet'', spec_chain_type = Local, spec_genesis = genesis,
            spec_protocol_id = Some ''template-local'',
            spec_properties = Some [(''tokenSymbol'', Text ''WARP''), (''tokenDecimals'', Number 12), (''ss58Format'', Number 42)]\<rparr>))"

subsection \<open>The command line\<close>

definition load_spec ::
  "bool \<Rightarrow> 32 word \<Rightarrow> ('acc, 'key) key_scheme \<Rightarrow> (string \<Rightarrow> (string, ('acc, 'key) chain_spec) result) \<Rightarrow> string
    \<Rightarrow> (string, ('acc, 'key) chain_spec) result"
where
  "load_spec wasm_binary safe_version S from_json_file i =
     (if i = ''dev'' then development_config wasm_binary safe_version S
      else if i = ''template-rococo'' then local_testnet_config wasm_binary safe_version S
      else if i = '''' \<or> i = ''local'' then local_testnet_config wasm_binary safe_version S
      else from_json_file i)"

record 'base relay_chain_cli =
  cli_base :: 'base
  cli_chain_id :: "string option"
  cli_base_path :: "string option"

text \<open>\<open>RelayChainCli::new\<close>: \<open>path_join\<close> appends to a path.\<close>

definition relay_chain_cli_new ::
  "(string list \<Rightarrow> 'base) \<Rightarrow> (string \<Rightarrow> string \<Rightarrow> string) \<Rightarrow> extensions option \<Rightarrow> string \<Rightarrow> string list \<Rightarrow> 'base relay_chain_cli"
where
  "relay_chain_cli_new parse_from path_join extension para_base_path relay_chain_args =
     \<lparr>cli_base = parse_from relay_chain_args, cli_chain_id = map_option relay_chain extension,
      cli_base_path = Some (path_join para_base_path ''polkadot'')\<rparr>"

definition relay_base_path ::
  "('base \<Rightarrow> ('e, string option) result) \<Rightarrow> 'base relay_chain_cli \<Rightarrow> ('e, string option) result"
where
  "relay_base_path shared_base_path cli =
     and_then (shared_base_path (cli_base cli)) (\<lambda>path. Ok (case path of Some p \<Rightarrow> Some p | None \<Rightarrow> cli_base_path cli))"

definition relay_chain_id ::
  "('base \<Rightarrow> bool \<Rightarrow> ('e, string) result) \<Rightarrow> 'base relay_chain_cli \<Rightarrow> bool \<Rightarrow> ('e, string) result"
where
  "relay_chain_id base_chain_id cli is_dev =
     and_then (base_chain_id (cli_base cli) is_dev) (\<lambda>chain_id.
     Ok (if chain_id = '''' then (case cli_chain_id cli of Some i \<Rightarrow> i | None \<Rightarrow> '''') else chain_id))"

definition p2p_listen_port :: "16 word" where
  "p2p_listen_port = 30334"

definition rpc_listen_port :: "16 word" where
  "rpc_listen_port = 9945"

definition prometheus_listen_port :: "16 word" where
  "prometheus_listen_port = 9616"

subsection \<open>Block authoring of the service\<close>

text \<open>The factory of \<open>start_consensus\<close> for the slot duration of \<open>start_parachain_node\<close>, and the time that
  it gives a proposal, in nanoseconds.\<close>

definition relay_chain_slot_duration :: nat where
  "relay_chain_slot_duration = 6 * 10 ^ 9"

definition consensus_factory :: "64 word \<Rightarrow> 'ext \<Rightarrow> 'ext factory" where
  "consensus_factory default_limit ext =
     with_proof_recording default_limit ext (of_nat (relay_chain_slot_duration div 10 ^ 6)) 200"

definition authoring_duration :: nat where
  "authoring_duration = 2000 * 10 ^ 6"

subsection \<open>Properties\<close>







text \<open>A proposal of the service is cut after a third of the time of its slot, which leaves room for seven build
  signals.\<close>

lemma authoring_time:
  "propose_deadline now authoring_duration = now + 1333333334"
  "propose_deadline now authoring_duration - now < relay_chain_slot_duration"
  "(propose_deadline now authoring_duration - now) div (unat (f_preconf_block_time (consensus_factory limit ext)) * 10 ^ 6) = 6"
  by (simp_all add: propose_deadline_def authoring_duration_def relay_chain_slot_duration_def consensus_factory_def
      with_proof_recording_def)

text \<open>The names of the local test network load the same specification, and the relay chain follows the extension
  unless its own arguments name a chain.\<close>

lemma load_spec_local:
  "i \<in> {'''', ''local'', ''template-rococo''} \<Longrightarrow> load_spec b v S from_json i = local_testnet_config b v S"
  by (auto simp: load_spec_def)

lemma relay_chain_id_of_extension:
  assumes "base_chain_id (parse args) is_dev = Ok i"
  shows "relay_chain_id base_chain_id (relay_chain_cli_new parse path_join (Some e) path args) is_dev
    = Ok (if i = '''' then relay_chain e else i)"
  by (simp add: relay_chain_id_def relay_chain_cli_new_def assms)

end
