(* ===== verification/Spec2Isabelle.thy ===== *)
theory Spec2Isabelle
  imports Dispatch Ops Node
begin

text \<open>
  \<^bold>\<open>A verification of the warp(x) node: the hybrid order book, its runtime, and block authoring with
  preconfirmations.\<close>

  warp(x) is a parachain whose main pallet joins an automated market maker with a limit order book: a pool of
  two assets holds reserves and two crit-bit trees of price levels, and an order is matched against the better
  of both. Its collator announces the extrinsics of a block in sub-blocks while the block is being built. The
  theories below model the code under \<open>src/\<close> from the index arithmetic of the tree up to the calls of the
  pallet and the proposer of the node, in the order in which the code uses them.

  \<^bold>\<open>Conventions.\<close> Machine integers are words of their width: \<open>+\<close>, \<open>-\<close> and \<open>*\<close> wrap as in a release
  build, checked and saturating operations are written out, and division by zero is a panic. A fallible
  function returns \<open>result\<close>: \<open>Ok\<close>, \<open>Err\<close> with the error of the source, \<open>Panic\<close>, or \<open>Diverge\<close> for a
  loop that does not end. A loop whose end is not evident is a \<open>partial_function (option)\<close>, so that there is
  no fuel anywhere and termination is a theorem; the other loops are structural. Stateful code of the pallet
  is a \<open>call\<close>, which takes the world and returns an outcome and the world it leaves. Code of other crates
  is an argument or a field of a record (\<open>env\<close>, \<open>ops_env\<close>, \<open>weight_ops\<close>, \<open>host\<close>, \<open>key_scheme\<close>);
  what is relied on of it is a named predicate (\<open>fungibles_spec\<close>, \<open>tokens_spec\<close>, \<open>registries_return\<close>,
  \<open>ops_spec\<close>, \<open>weight_spec\<close>, \<open>perbill_spec\<close>, \<open>builder_spec\<close>, \<open>clock_passes\<close>, \<open>seeds_valid\<close>), and a
  concrete instance of each satisfies it (\<open>table_env\<close>, \<open>ops_table_env\<close>, \<open>pair_weights\<close>,
  \<open>floor_perbill\<close>, \<open>list_host\<close>, \<open>plain_scheme\<close>).

  \<^bold>\<open>The crit-bit tree\<close> (\<open>pallets/hybrid-orderbook/src/critbit.rs\<close>, index types of \<open>types.rs\<close>).
  \<^item> \<open>Prelude\<close>: results, ordered maps as association lists, checked arithmetic, collections of lemmas.
  \<^item> \<open>Indices\<close>: \<open>OrderBookIndex\<close> with \<open>new_mask\<close>; the mask isolates the critical bit of two keys.
  \<^item> \<open>Critbit\<close>: the two node maps and every operation of \<open>impl CritbitTree\<close>.
  \<^item> \<open>CritbitInv\<close>, \<open>CritbitQuery\<close>, \<open>CritbitInsert\<close>, \<open>CritbitRemove\<close>: the inductive tree that the maps stand
    for, the invariant \<open>wf_tree\<close>, and the effect of every operation on it; all loops end.
  \<^item> \<open>PriceMap\<close>: the locale \<open>price_map\<close>, a finite map with ordered traversal, interpreted by the tree:
    insertion, removal, lookup, extrema and neighbours refine the operations on maps.

  \<^bold>\<open>Orders\<close> (\<open>types.rs\<close>, \<open>impl OrderBook for CritbitTree\<close> in \<open>critbit.rs\<close>).
  \<^item> \<open>OrderIds\<close>: the two halves of the id space; ids of bids and asks never collide.
  \<^item> \<open>Ticks\<close>: the orders of a price level; filling is first in, first out and conserves quantities.
  \<^item> \<open>OrderBooks\<close>: the locale \<open>order_book\<close>; placing, filling and cancelling refine an abstract book on every
    branch.
  \<^item> \<open>Pools\<close>: \<open>Pool\<close> with its two books, ids and queries, and the pool locators.

  \<^bold>\<open>The pallet\<close> (\<open>pallets/hybrid-orderbook/src/lib.rs\<close>, \<open>swap.rs\<close>).
  \<^item> \<open>Pricing\<close>: quotes, amounts of swaps in 256 bits, the first liquidity, and the search of
    \<open>find_max_swap_quantity\<close>: swaps keep the product of the reserves; the search ends for base assets without
    decimals, and not for every other.
  \<^item> \<open>Ledger\<close>: the world (pools, next token, registries, events), calls and their rules (\<open>keeps\<close> and
    \<open>returns\<close>), and what the registries promise.
  \<^item> \<open>Swaps\<close>: paths and the swaps along them, with and without credits.
  \<^item> \<open>Matching\<close>: freezing, settlement, matching, market, limit and cancel orders.
  \<^item> \<open>WorldInv\<close>: the invariant of the storage as the locale \<open>pool_invariant\<close>, interpreted twice.
  \<^item> \<open>OrderFlow\<close>: matching ends and accounts for what it takes; what orders freeze, settle and release.
  \<^item> \<open>Liquidity\<close>: creating pools, adding and removing liquidity, \<open>touch\<close>, the queries; the locale
    \<open>pool_creation\<close> extends \<open>pool_invariant\<close>. Liquidity is never diluted and a round trip never gains.
  \<^item> \<open>Dispatch\<close>: the calls as one datatype and the worlds that they reach by the inductive relation
    \<open>reachable\<close>; the invariant holds in all of them.
  \<^item> \<open>Ops\<close>: the migration of a pool to a new account (\<open>ops/src/lib.rs\<close>), which moves everything.

  \<^bold>\<open>Runtime and node.\<close>
  \<^item> \<open>Weights\<close>: every weight function of the pallets and of \<open>runtime/src/weights\<close>.
  \<^item> \<open>RuntimeConfig\<close>: constants, \<open>WeightToFee\<close>, block weights, the configuration of the order book, the pool
    queries of the runtime API and the filter of free XCM execution (\<open>runtime/src\<close>).
  \<^item> \<open>Preconf\<close>: the proposer (\<open>client/authorship/src/preconf.rs\<close>): inherents, sub-blocks, payloads, the
    authoring loop over an explicit sequence of signals, publishing. Instants are readings of a clock that is
    any function of the number of readings. Payloads are exactly what the block contains; a proposal is
    returned after the cancellation.
  \<^item> \<open>Node\<close>: chain specifications, the choice among them, the relay chain part of the command line, and the
    configuration of authoring (\<open>client/service\<close>, \<open>client/cli\<close>).

  This theory holds what spans components: the weight that \<open>touch\<close> reports.

  \<^bold>\<open>What the theorems do not assume.\<close> The registries may fail at any call, and between two calls of the
  pallet the ledger may change in any way. A call that fails half way is rolled back by the storage layer,
  which is why outcomes other than \<open>Ok\<close> leave no trace in \<open>reachable\<close>.

  \<^bold>\<open>Not modelled.\<close> The rest of the service (\<open>new_partial\<close>, \<open>build_import_queue\<close>,
  \<open>start_parachain_node\<close>), \<open>run\<close> of the command line and the RPC extension only connect network, database,
  import queue, telemetry and tasks of other crates. The remaining \<open>Config\<close> implementations, the XCM types and
  the other runtime APIs name types and forward to other pallets. Benchmarks, mock runtimes, tests and build
  scripts are not part of the chain. Logging, metrics and the encoding of JSON are left out, and the tasks,
  channels and sockets of the proposer appear as the signals and messages that they deliver. Weights are
  modelled as functions and not charged along the calls.
\<close>

subsection \<open>Calls and their weights\<close>

lemma touched_once:
  "touch_asset env asset pool_account who w = (Ok n, w') \<Longrightarrow> n \<le> 1"
  "touch_token env token pool_account who w = (Ok n, w') \<Longrightarrow> n \<le> 1"
  by (auto simp: touch_asset_def touch_token_def bind_eq_Ok basic_calls split: if_splits)

lemma three_at_most:
  fixes a b c :: "32 word"
  assumes "a \<le> 1" "b \<le> 1" "c \<le> 1"
  shows "a + b + c \<le> 3"
proof -
  have "unat a \<le> 1" "unat b \<le> 1" "unat c \<le> 1"
    using assms by (simp_all add: word_le_nat_alt)
  then have "unat (a + b + c) \<le> 3"
    unfolding unat_word_ariths by (simp add: mod_less)
  then show ?thesis
    by (simp add: word_le_nat_alt)
qed

text \<open>
  C39. The weight that \<open>touch\<close> reports after it ran never exceeds the weight that was charged for it,
  which is that of three touched accounts.
\<close>

theorem touch_never_exceeds_charge:
  assumes "weight_spec W rt ps db"
    and "touch ensure_signed (touch_weight W) env origin base_asset quote_asset w = (Ok (Some refunded), w')"
  shows "rt refunded \<le> rt (touch_weight W 3) \<and> ps refunded \<le> ps (touch_weight W 3)"
proof -
  obtain n1 n2 n3 where "n1 \<le> 1" "n2 \<le> 1" "n3 \<le> 1" and refunded: "refunded = touch_weight W (n1 + n2 + n3)"
    using assms(2) unfolding touch_def
    by (clarsimp simp: bind_eq_Ok basic_calls(1,2,4,5) dest!: touched_once)
  then have "n1 + n2 + n3 \<le> 3"
    by (intro three_at_most)
  from touch_weight_mono [OF assms(1) this] show ?thesis
    by (simp add: refunded)
qed

theorem touch_never_exceeds_charge_witness:
  "\<exists>refunded w'. touch signed_by (touch_weight (pair_weights (rocksdb_weight 1000))) table_env 7 0 1 market_world
      = (Ok (Some refunded), w')
    \<and> fst refunded \<le> fst (touch_weight (pair_weights (rocksdb_weight 1000)) 3)"
proof -
  let ?W = "pair_weights (rocksdb_weight 1000)"
  obtain w' where run: "touch signed_by (touch_weight ?W) table_env 7 0 1 market_world = (Ok (Some (touch_weight ?W 0)), w')"
    by (simp add: touch_def bind_def basic_calls ensure_def locate_pool_def table_env_def base_quote_pool_id_def
        market_world_def touch_asset_def touch_token_def deposit_event_def)
  from touch_never_exceeds_charge [OF pair_weights_spec run] show ?thesis
    by (intro exI [of _ "touch_weight ?W 0"] exI [of _ w'] conjI run) simp
qed

end
